theory Spec2Isabelle
  imports Complex_Main "HOL-Library.Sublist"
begin

section \<open>JavaScript values used by the extraction client and the orchestrator\<close>

text \<open>
  Amounts are JavaScript numbers (IEEE binary64). Their arithmetic is not defined here:
  the type of amounts is a type parameter \<open>'n\<close>, and \<open>+\<close>, \<open>-\<close>, \<open><\<close>, \<open>abs\<close> and \<open>0\<close> are
  whatever \<open>'n\<close> provides (the classes \<open>plus\<close>, \<open>minus\<close>, \<open>ord\<close>, \<open>abs\<close>, \<open>zero\<close> carry no
  law). A theorem uses of them only what it assumes, and what is assumed holds of
  binary64 with its rounding. Years are integers (the response schema declares \<open>year\<close>
  as INTEGER). The \<open>null\<close> marker of \<open>Record<number, number | null>\<close> is
  \<^term>\<open>None\<close>.
\<close>

subsection \<open>Objects with numeric keys\<close>

text \<open>
  A JavaScript object keyed by numbers, kept as the list of its own properties in
  property order: array-index keys (\<open>0 \<le> k < 2^32 - 1\<close>) come first in ascending
  order, every other key follows in insertion order. Assigning to an existing key
  overwrites the value in place.
\<close>

type_synonym 'v js_object = "(int \<times> 'v) list"

definition is_array_index :: "int \<Rightarrow> bool" where
  "is_array_index k \<longleftrightarrow> 0 \<le> k \<and> k < 4294967295"

definition obj_get :: "'v js_object \<Rightarrow> int \<Rightarrow> 'v option" where
  \<comment> \<open>\<open>obj[k]\<close>; \<open>None\<close> is JavaScript's \<open>undefined\<close> (no such property).\<close>
  "obj_get obj k = map_of obj k"

definition obj_set :: "int \<Rightarrow> 'v \<Rightarrow> 'v js_object \<Rightarrow> 'v js_object" where
  \<comment> \<open>\<open>obj[k] = v\<close>\<close>
  "obj_set k v obj =
     (if k \<in> fst ` set obj
      then map (\<lambda>(k', v'). if k' = k then (k', v) else (k', v')) obj
      else if is_array_index k
      then takeWhile (\<lambda>(k', v'). is_array_index k' \<and> k' < k) obj
             @ (k, v) # dropWhile (\<lambda>(k', v'). is_array_index k' \<and> k' < k) obj
      else obj @ [(k, v)])"

definition Object_values :: "'v js_object \<Rightarrow> 'v list" where
  "Object_values obj = map snd obj"

subsection \<open>Strings and errors\<close>

definition String_includes :: "string \<Rightarrow> string \<Rightarrow> bool" where
  \<comment> \<open>\<open>s.includes(t)\<close>: \<open>t\<close> occurs in \<open>s\<close> as a contiguous substring.\<close>
  "String_includes s t = sublist t s"

text \<open>
  A thrown value: an object, with its \<open>message\<close> property; \<open>message\<close> is \<open>None\<close> when
  the object has no such property. (A thrown \<open>null\<close> or \<open>undefined\<close> is not a value of
  this type; the endpoint and \<open>JSON.parse\<close> throw objects.)
\<close>

datatype js_error = Error (message: "string option")

definition TypeError_includes_of_undefined :: js_error where
  \<comment> \<open>What \<open>procErr.message.includes(...)\<close> throws when \<open>procErr.message\<close> is
      \<open>undefined\<close> (the text is the engine's; V8's is used here).\<close>
  "TypeError_includes_of_undefined =
     Error (Some ''Cannot read properties of undefined (reading 'includes')'')"

subsection \<open>Effects: the remote service and the timers\<close>

text \<open>
  The state threaded through the asynchronous code: \<open>world\<close> is the state of whatever
  the awaited function talks to (the model endpoint), \<open>timeouts\<close> is the log of the
  delays passed to \<open>setTimeout\<close> and awaited, in order.
\<close>

record 'w io =
  world :: 'w
  timeouts :: "int list"

definition sleep :: "int \<Rightarrow> 'w io \<Rightarrow> 'w io" where
  \<comment> \<open>\<open>await new Promise(resolve => setTimeout(resolve, ms))\<close>\<close>
  "sleep ms s = s\<lparr>timeouts := timeouts s @ [ms]\<rparr>"

definition await_call :: "('w \<Rightarrow> 'r \<times> 'w) \<Rightarrow> 'w io \<Rightarrow> 'r \<times> 'w io" where
  "await_call fn s = (case fn (world s) of (r, w') \<Rightarrow> (r, s\<lparr>world := w'\<rparr>))"

section \<open>The extraction client\<close>

subsection \<open>withRetry\<close>

definition isRetryable :: "js_error \<Rightarrow> bool" where
  "isRetryable err =
     (case message err of
        None \<Rightarrow> False
      | Some m \<Rightarrow> String_includes m ''429'' \<or> String_includes m ''500'' \<or> String_includes m ''503'')"

function withRetry_loop ::
  "('w \<Rightarrow> (js_error + 'a) \<times> 'w) \<Rightarrow> int \<Rightarrow> int \<Rightarrow> int \<Rightarrow> 'w io \<Rightarrow> (js_error + 'a) \<times> 'w io"
where
  "withRetry_loop fn maxRetries i delay s =
     (if i < maxRetries then
        (case await_call fn s of
           (Inr v, s') \<Rightarrow> (Inr v, s')
         | (Inl err, s') \<Rightarrow>
             if i = maxRetries - 1 \<or> \<not> isRetryable err then (Inl err, s')
             else withRetry_loop fn maxRetries (i + 1) (delay * 2) (sleep delay s'))
      else (Inl (Error (Some ''Max retries exceeded'')), s))"
  by pat_completeness auto
termination
  by (relation "measure (\<lambda>(fn, maxRetries, i, delay, s). nat (maxRetries - i))") auto

declare withRetry_loop.simps [simp del]

definition withRetry ::
  "('w \<Rightarrow> (js_error + 'a) \<times> 'w) \<Rightarrow> int \<Rightarrow> 'w io \<Rightarrow> (js_error + 'a) \<times> 'w io"
where
  "withRetry fn maxRetries s = withRetry_loop fn maxRetries 0 2000 s"

definition withRetry_default ::
  "('w \<Rightarrow> (js_error + 'a) \<times> 'w) \<Rightarrow> 'w io \<Rightarrow> (js_error + 'a) \<times> 'w io"
where
  \<comment> \<open>\<open>maxRetries = 3\<close> when the argument is omitted\<close>
  "withRetry_default fn s = withRetry fn 3 s"

definition count_calls :: "('w \<Rightarrow> 'r \<times> 'w) \<Rightarrow> 'w \<times> nat \<Rightarrow> 'r \<times> ('w \<times> nat)" where
  \<comment> \<open>Instrumentation for stating bounds on the number of attempts: \<open>fn\<close> with a counter
      of its invocations beside its own state.\<close>
  "count_calls fn = (\<lambda>(w, n). case fn w of (r, w') \<Rightarrow> (r, (w', Suc n)))"

definition attempt_world :: "('w \<Rightarrow> 'r \<times> 'w) \<Rightarrow> nat \<Rightarrow> 'w \<Rightarrow> 'w" where
  \<comment> \<open>For stating what a run of calls does: the state in which call number \<open>j\<close> of \<open>fn\<close>
      (counted from 0) is made, when the calls start in \<open>w\<close>.\<close>
  "attempt_world fn j w = ((snd \<circ> fn) ^^ j) w"

definition attempt_outcome :: "('w \<Rightarrow> 'r \<times> 'w) \<Rightarrow> nat \<Rightarrow> 'w \<Rightarrow> 'r" where
  \<comment> \<open>the result or error of call number \<open>j\<close>\<close>
  "attempt_outcome fn j w = fst (fn (attempt_world fn j w))"

subsection \<open>processTaxPDF\<close>

record 'n arrear =
  year :: int
  kurangBayar :: 'n

record 'n raw_item =
  item_nama :: string
  item_nop :: string
  item_arrears :: "'n arrear list"

record 'n TaxRecord =
  nama :: string
  nop :: string
  arrears :: "'n option js_object"
  total :: 'n
  "notes" :: "string list"

record response =
  response_text :: "string option"

function init_years :: "int \<Rightarrow> int \<Rightarrow> 'n option js_object \<Rightarrow> 'n option js_object" where
  \<comment> \<open>\<open>for (let y = START_YEAR; y <= END_YEAR; y++) arrearsMap[y] = null\<close>, from \<open>y\<close> on\<close>
  "init_years y END_YEAR arrearsMap =
     (if y \<le> END_YEAR then init_years (y + 1) END_YEAR (obj_set y None arrearsMap)
      else arrearsMap)"
  by pat_completeness auto
termination
  by (relation "measure (\<lambda>(y, END_YEAR, arrearsMap). nat (END_YEAR + 1 - y))") auto

declare init_years.simps [simp del]

definition fill_arrear ::
  "int \<Rightarrow> int \<Rightarrow> 'n option js_object \<Rightarrow> 'n arrear \<Rightarrow> 'n option js_object"
where
  \<comment> \<open>the body of \<open>item.arrears.forEach\<close>\<close>
  "fill_arrear START_YEAR END_YEAR arrearsMap a =
     (if year a \<ge> START_YEAR \<and> year a \<le> END_YEAR
      then obj_set (year a) (Some (kurangBayar a)) arrearsMap
      else arrearsMap)"

definition sum_positive :: "'n::{plus,zero,ord} option list \<Rightarrow> 'n" where
  \<comment> \<open>\<open>values.reduce((sum, val) => sum + (val !== null && val > 0 ? val : 0), 0)\<close>\<close>
  "sum_positive vals =
     foldl (\<lambda>sum val. sum + (case val of None \<Rightarrow> 0 | Some numVal \<Rightarrow> if numVal > 0 then numVal else 0))
       0 vals"

definition spec_positive_sum :: "'n::{plus,zero,ord} option js_object \<Rightarrow> 'n" where
  \<comment> \<open>The spec's words, for comparison with \<open>sum_positive\<close>: the sum of the strictly
      positive amounts of the mapping. The null entries are left out, then the amounts
      that are not above zero; what remains is added up from \<open>0\<close>, from left to right in
      the order of \<open>Object.values\<close> (the sum of numbers depends on the order).\<close>
  "spec_positive_sum obj =
     foldl (+) 0 (filter (\<lambda>v. 0 < v) (List.map_filter id (Object_values obj)))"

definition normalize_item ::
  "int \<Rightarrow> int \<Rightarrow> 'n::{plus,zero,ord} raw_item \<Rightarrow> 'n TaxRecord"
where
  \<comment> \<open>the callback of \<open>rawData.map\<close>\<close>
  "normalize_item START_YEAR END_YEAR item =
     (let arrearsMap = init_years START_YEAR END_YEAR [];
          arrearsMap = foldl (fill_arrear START_YEAR END_YEAR) arrearsMap (item_arrears item);
          total = sum_positive (Object_values arrearsMap)
      in \<lparr>nama = item_nama item, nop = item_nop item, arrears = arrearsMap,
          total = total, notes = []\<rparr>)"

text \<open>
  \<open>generateContent\<close> (the call to the model endpoint) and \<open>JSON.parse\<close> are not code of
  this program; they are parameters. \<open>JSON_parse\<close> returns the parsed array of items
  (the client trusts the declared response schema) or the error it throws.
\<close>

definition processTaxPDF ::
  "int \<Rightarrow> int \<Rightarrow> (string \<Rightarrow> string \<Rightarrow> 'w \<Rightarrow> (js_error + response) \<times> 'w) \<Rightarrow>
   (string \<Rightarrow> js_error + 'n::{plus,zero,ord} raw_item list) \<Rightarrow>
   string \<Rightarrow> string \<Rightarrow> 'w io \<Rightarrow> (js_error + 'n TaxRecord list) \<times> 'w io"
where
  "processTaxPDF START_YEAR END_YEAR generateContent JSON_parse fileBase64 mimeType s =
     (case withRetry_default (generateContent fileBase64 mimeType) s of
        (Inl err, s') \<Rightarrow> (Inl err, s')
      | (Inr response, s') \<Rightarrow>
          (case JSON_parse (case response_text response of
                              None \<Rightarrow> ''[]''
                            | Some t \<Rightarrow> if t = [] then ''[]'' else t) of
             Inl err \<Rightarrow> (Inl err, s')
           | Inr rawData \<Rightarrow> (Inr (map (normalize_item START_YEAR END_YEAR) rawData), s')))"

section \<open>The orchestrator (App)\<close>

record File =
  base64 :: string
  file_type :: string

record 'n app_state =
  records :: "'n TaxRecord list"
  isLoading :: bool
  error :: "string option"

definition QUOTA_MESSAGE :: string where
  "QUOTA_MESSAGE = ''Kuota API sistem saat ini penuh (Rate Limit Exceeded). Silakan gunakan 'API Key Sendiri' dari Google AI Studio atau coba lagi dalam beberapa menit.''"

definition FAILURE_MESSAGE :: string where
  "FAILURE_MESSAGE = ''Gagal memproses file. Pastikan dokumen jelas dan format PDF/Gambar didukung.''"

subsection \<open>handleFileUpload\<close>

definition inner_catch :: "js_error \<Rightarrow> js_error" where
  \<comment> \<open>What the \<open>catch (procErr)\<close> block around \<open>processTaxPDF\<close> throws.\<close>
  "inner_catch procErr =
     (case message procErr of
        None \<Rightarrow> TypeError_includes_of_undefined
      | Some m \<Rightarrow> if String_includes m ''429'' then Error (Some ''QUOTA_EXCEEDED'') else procErr)"

fun upload_loop ::
  "int \<Rightarrow> int \<Rightarrow> (string \<Rightarrow> string \<Rightarrow> 'w \<Rightarrow> (js_error + response) \<times> 'w) \<Rightarrow>
   (string \<Rightarrow> js_error + 'n::{plus,zero,ord} raw_item list) \<Rightarrow>
   int \<Rightarrow> File list \<Rightarrow> 'n TaxRecord list \<Rightarrow> 'w io \<Rightarrow>
   (js_error + 'n TaxRecord list) \<times> 'w io"
where
  "upload_loop START_YEAR END_YEAR generateContent JSON_parse i [] newRecords s =
     (Inr newRecords, s)"
| "upload_loop START_YEAR END_YEAR generateContent JSON_parse i (file # rest) newRecords s =
     (let s1 = (if i > 0 then sleep 1500 s else s) in
      case processTaxPDF START_YEAR END_YEAR generateContent JSON_parse
             (base64 file) (file_type file) s1 of
        (Inr result, s2) \<Rightarrow>
          upload_loop START_YEAR END_YEAR generateContent JSON_parse (i + 1) rest
            (newRecords @ result) s2
      | (Inl procErr, s2) \<Rightarrow> (Inl (inner_catch procErr), s2))"

definition outer_catch :: "js_error \<Rightarrow> string" where
  \<comment> \<open>The banner set by the outer \<open>catch (err)\<close> block.\<close>
  "outer_catch err =
     (if message err = Some ''QUOTA_EXCEEDED''
         \<or> (case message err of None \<Rightarrow> False | Some m \<Rightarrow> String_includes m ''429'')
      then QUOTA_MESSAGE else FAILURE_MESSAGE)"

definition handleFileUpload ::
  "int \<Rightarrow> int \<Rightarrow> (string \<Rightarrow> string \<Rightarrow> 'w \<Rightarrow> (js_error + response) \<times> 'w) \<Rightarrow>
   (string \<Rightarrow> js_error + 'n::{plus,zero,ord} raw_item list) \<Rightarrow>
   File list option \<Rightarrow> 'n app_state \<times> 'w io \<Rightarrow> 'n app_state \<times> 'w io"
where
  "handleFileUpload START_YEAR END_YEAR generateContent JSON_parse files =
     (\<lambda>(st, s).
        case files of
          None \<Rightarrow> (st, s)
        | Some fileList \<Rightarrow>
            if length fileList = 0 then (st, s)
            else
              (let st = st\<lparr>isLoading := True, error := None\<rparr> in
               case upload_loop START_YEAR END_YEAR generateContent JSON_parse 0 fileList [] s of
                 (Inr newRecords, s') \<Rightarrow>
                   (st\<lparr>records := records st @ newRecords, isLoading := False\<rparr>, s')
               | (Inl err, s') \<Rightarrow>
                   (st\<lparr>error := Some (outer_catch err), isLoading := False\<rparr>, s')))"

fun extractions ::
  "int \<Rightarrow> int \<Rightarrow> (string \<Rightarrow> string \<Rightarrow> 'w \<Rightarrow> (js_error + response) \<times> 'w) \<Rightarrow>
   (string \<Rightarrow> js_error + 'n::{plus,zero,ord} raw_item list) \<Rightarrow>
   int \<Rightarrow> File list \<Rightarrow> 'w io \<Rightarrow> (js_error + 'n TaxRecord list) list"
where
  \<comment> \<open>For stating the properties of a batch: the outcomes of the calls of \<open>processTaxPDF\<close>
      that the loop of \<open>handleFileUpload\<close> makes, in order (each call runs in the state
      the previous ones have left, after the delay between files; the loop makes no call
      after a failed one).\<close>
  "extractions START_YEAR END_YEAR generateContent JSON_parse i [] s = []"
| "extractions START_YEAR END_YEAR generateContent JSON_parse i (file # rest) s =
     (case processTaxPDF START_YEAR END_YEAR generateContent JSON_parse
             (base64 file) (file_type file) (if i > 0 then sleep 1500 s else s) of
        (Inr result, s2) \<Rightarrow>
          Inr result # extractions START_YEAR END_YEAR generateContent JSON_parse (i + 1) rest s2
      | (Inl procErr, s2) \<Rightarrow> [Inl procErr])"

subsection \<open>generateSummary\<close>

record ValidationSummary =
  totalRecords :: nat
  duplicates :: "string list"
  anomalies :: "string list"

fun indexOf :: "'a list \<Rightarrow> 'a \<Rightarrow> int" where
  "indexOf [] x = - 1"
| "indexOf (y # ys) x =
     (if y = x then 0 else (let r = indexOf ys x in if r = - 1 then - 1 else r + 1))"

definition filter_with_index :: "('a \<Rightarrow> int \<Rightarrow> bool) \<Rightarrow> 'a list \<Rightarrow> 'a list" where
  \<comment> \<open>\<open>xs.filter((x, index) => p(x, index))\<close>\<close>
  "filter_with_index p xs = map fst (filter (\<lambda>(x, index). p x index) (zip xs [0..int (length xs) - 1]))"

definition Array_from_Set :: "'a list \<Rightarrow> 'a list" where
  \<comment> \<open>\<open>Array.from(new Set(xs))\<close>: the elements in order of first insertion\<close>
  "Array_from_Set xs = foldl (\<lambda>seen x. if x \<in> set seen then seen else seen @ [x]) [] xs"

definition anomaly_message :: "'n TaxRecord \<Rightarrow> string" where
  "anomaly_message r = ''Ketidaksesuaian total untuk NOP '' @ nop r"

definition total_mismatch :: "'n::{plus,zero,ord,minus,abs} \<Rightarrow> 'n TaxRecord \<Rightarrow> bool" where
  \<comment> \<open>The test inside \<open>records.forEach\<close>. \<open>epsilon\<close> is the number that the literal
      \<open>0.01\<close> denotes (the binary64 value nearest to one hundredth, which is not one
      hundredth).\<close>
  "total_mismatch epsilon r =
     (let arrearsValues = Object_values (arrears r);
          calculatedTotal = sum_positive arrearsValues
      in \<bar>calculatedTotal - total r\<bar> > epsilon)"

definition generateSummary ::
  "'n::{plus,zero,ord,minus,abs} \<Rightarrow> 'n TaxRecord list \<Rightarrow> ValidationSummary"
where
  "generateSummary epsilon recs =
     (let nops = map nop recs;
          dups = filter_with_index (\<lambda>n index. indexOf nops n \<noteq> index) nops;
          anoms = foldl (\<lambda>anoms r. if total_mismatch epsilon r then anoms @ [anomaly_message r]
                                     else anoms)
                    [] recs
      in \<lparr>totalRecords = length recs, duplicates = Array_from_Set dups, anomalies = anoms\<rparr>)"

subsection \<open>exportToCSV\<close>

fun digits :: "nat \<Rightarrow> string" where
  "digits n =
     (if n < 10 then [char_of (48 + n)] else digits (n div 10) @ [char_of (48 + n mod 10)])"

declare digits.simps [simp del]

definition String_int :: "(int \<Rightarrow> string) \<Rightarrow> int \<Rightarrow> string" where
  \<comment> \<open>\<open>String(n)\<close> for a year: the decimal digits of an integer below \<open>2^53\<close> in
      magnitude (every such integer is a number, and prints as its digits); the rendering
      of any other integer is the parameter \<open>other\<close>.\<close>
  "String_int other n =
     (if \<bar>n\<bar> < 2 ^ 53
      then (if n < 0 then CHR ''-'' # digits (nat (- n)) else digits (nat n))
      else other n)"

fun Array_join :: "string \<Rightarrow> string list \<Rightarrow> string" where
  "Array_join sep [] = []"
| "Array_join sep [x] = x"
| "Array_join sep (x # y # ys) = x @ sep @ Array_join sep (y # ys)"

definition BOM :: string where
  \<comment> \<open>U+FEFF as the Blob encodes it (UTF-8)\<close>
  "BOM = [CHR 0xEF, CHR 0xBB, CHR 0xBF]"

text \<open>
  The conversion of an amount to a string (\<open>Number::toString\<close>, the shortest digits that
  read back as the same number) belongs to the engine: it is the parameter \<open>toString\<close>.
\<close>

definition csv_headers :: "(int \<Rightarrow> string) \<Rightarrow> int list \<Rightarrow> string list" where
  "csv_headers other YEARS = [''Nama'', ''NOP''] @ map (String_int other) YEARS @ [''Total'']"

definition csv_cell :: "('n \<Rightarrow> string) \<Rightarrow> 'n TaxRecord \<Rightarrow> int \<Rightarrow> string" where
  \<comment> \<open>\<open>record.arrears[year] !== null ? record.arrears[year] : ''\<close> as \<open>join\<close> prints it:
      \<open>join\<close> prints \<open>undefined\<close> (no such property) as the empty string too.\<close>
  "csv_cell toString r y =
     (case obj_get (arrears r) y of
        None \<Rightarrow> []
      | Some None \<Rightarrow> []
      | Some (Some v) \<Rightarrow> toString v)"

definition csv_row :: "('n \<Rightarrow> string) \<Rightarrow> int list \<Rightarrow> 'n TaxRecord \<Rightarrow> string" where
  \<open>csv_row toString YEARS r =
     Array_join '',''
       ([''"'' @ nama r @ ''"'', CHR 0x27 # nop r]
        @ map (csv_cell toString r) YEARS
        @ [toString (total r)])\<close>

definition exportToCSV ::
  "('n \<Rightarrow> string) \<Rightarrow> (int \<Rightarrow> string) \<Rightarrow> int list \<Rightarrow> 'n TaxRecord list \<Rightarrow> string option"
where
  \<comment> \<open>The bytes of the downloaded file; \<open>None\<close> when nothing is downloaded.\<close>
  "exportToCSV toString other YEARS recs =
     (if length recs = 0 then None
      else
        (let headers = csv_headers other YEARS;
             rows = map (csv_row toString YEARS) recs;
             csvContent = Array_join [CHR 0x0A] (Array_join '','' headers # rows)
         in Some (BOM @ csvContent)))"

definition YEARS_of :: "int \<Rightarrow> int \<Rightarrow> int list" where
  \<comment> \<open>Modelled from the spec: the constant \<open>YEARS\<close> of \<open>./constants\<close> is not among the
      sources; the spec has one column per configured year of [START_YEAR, END_YEAR].\<close>
  "YEARS_of START_YEAR END_YEAR = [START_YEAR..END_YEAR]"

section \<open>Concrete scenarios\<close>

text \<open>
  Stand-ins for the model endpoint and for \<open>JSON.parse\<close>, used to run the program on
  concrete inputs. The state of the endpoint is the number of calls it has received.
  The amounts of these runs are rationals: integers of a few digits and the value of
  the literal \<open>0.01\<close>, on which every operation these runs perform is exact in binary64
  and gives the same result.
\<close>

definition failing_service ::
  "string \<Rightarrow> string \<Rightarrow> string \<Rightarrow> nat \<Rightarrow> (js_error + response) \<times> nat"
where
  \<comment> \<open>every call fails with an error of the given message\<close>
  "failing_service msg fileBase64 mimeType k = (Inl (Error (Some msg)), Suc k)"

definition echo_service :: "string \<Rightarrow> string \<Rightarrow> nat \<Rightarrow> (js_error + response) \<times> nat" where
  \<comment> \<open>rejects the document \<open>bad\<close> with a 400, answers any other document with its own content\<close>
  "echo_service fileBase64 mimeType k =
     (if fileBase64 = ''bad'' then Inl (Error (Some ''400 Bad Request''))
      else Inr \<lparr>response_text = Some fileBase64\<rparr>, Suc k)"

definition one_item_parser :: "string \<Rightarrow> js_error + rat raw_item list" where
  \<comment> \<open>rejects a text that starts with \<open><\<close>, reads any other text as one item named by it\<close>
  "one_item_parser t =
     (if take 1 t = ''<'' then Inl (Error (Some ''Unexpected token < in JSON at position 0''))
      else Inr [\<lparr>item_nama = t, item_nop = t, item_arrears = [\<lparr>year = 2021, kurangBayar = 500\<rparr>]\<rparr>])"

definition pdf :: "string \<Rightarrow> File" where
  "pdf content = \<lparr>base64 = content, file_type = ''application/pdf''\<rparr>"

definition start :: "nat io" where
  "start = \<lparr>world = 0, timeouts = []\<rparr>"

definition previous_record :: "rat TaxRecord" where
  "previous_record =
     \<lparr>nama = ''Siti'', nop = ''001'', arrears = [(2020, Some 100), (2021, None)],
      total = 100, notes = []\<rparr>"

definition idle :: "rat app_state" where
  "idle = \<lparr>records = [previous_record], isLoading = False, error = None\<rparr>"

definition double_0_01 :: rat where
  \<comment> \<open>the exact value of the binary64 number that the literal \<open>0.01\<close> denotes\<close>
  "double_0_01 = 5764607523034235 / 2 ^ 59"

definition print_integral :: "rat \<Rightarrow> string" where
  \<comment> \<open>prints an integral value below \<open>2^53\<close> in magnitude as its decimal digits, as
      \<open>Number::toString\<close> does, and stands in for it on no other value\<close>
  "print_integral x =
     (if of_int \<lfloor>x\<rfloor> = x \<and> \<bar>x\<bar> < 2 ^ 53 then String_int (\<lambda>n. ''?'') \<lfloor>x\<rfloor> else ''?'')"


section \<open>Properties of the object model\<close>

lemma map_of_overwrite:
  "map_of (map (\<lambda>(k', v'). if k' = k then (k', v) else (k', v')) obj) x =
     (if x = k \<and> k \<in> fst ` set obj then Some v else map_of obj x)"
proof (induction obj)
  case Nil
  then show ?case by simp
next
  case (Cons p obj)
  obtain a b where p: "p = (a, b)" by (cases p)
  show ?case using Cons.IH by (force simp: p)
qed

lemma map_of_insert_mid:
  "map_of (xs @ (k, v) # ys) x = (if x = k \<and> k \<notin> fst ` set xs then Some v else map_of (xs @ ys) x)"
  by (induction xs) auto

lemma obj_set_existing:
  "k \<in> fst ` set obj \<Longrightarrow>
   obj_set k v obj = map (\<lambda>(k', v'). if k' = k then (k', v) else (k', v')) obj"
  unfolding obj_set_def by (simp only: if_True)

lemma obj_set_new:
  "k \<notin> fst ` set obj \<Longrightarrow>
   \<exists>xs ys. obj = xs @ ys \<and> obj_set k v obj = xs @ (k, v) # ys"
proof -
  assume nk: "k \<notin> fst ` set obj"
  let ?P = "\<lambda>(k', v'::'a). is_array_index k' \<and> k' < k"
  show ?thesis
  proof (cases "is_array_index k")
    case True
    have "obj = takeWhile ?P obj @ dropWhile ?P obj" by simp
    moreover have "obj_set k v obj = takeWhile ?P obj @ (k, v) # dropWhile ?P obj"
      unfolding obj_set_def using nk True by (simp only: if_True if_False)
    ultimately show ?thesis by blast
  next
    case False
    have "obj = obj @ []" by simp
    moreover have "obj_set k v obj = obj @ (k, v) # []"
      unfolding obj_set_def using nk False by (simp only: if_True if_False)
    ultimately show ?thesis by blast
  qed
qed

lemma obj_get_obj_set: "obj_get (obj_set k v obj) x = (if x = k then Some v else obj_get obj x)"
proof (cases "k \<in> fst ` set obj")
  case True
  then show ?thesis
    unfolding obj_get_def by (simp only: obj_set_existing map_of_overwrite) simp
next
  case False
  from obj_set_new[OF False, of v]
  obtain xs ys where o: "obj = xs @ ys" and s: "obj_set k v obj = xs @ (k, v) # ys"
    by (elim exE conjE)
  have s': "obj_set k v (xs @ ys) = xs @ (k, v) # ys" using s o by simp
  have "k \<notin> fst ` set xs" using False o by auto
  then show ?thesis
    unfolding obj_get_def o s' by (simp only: map_of_insert_mid) simp
qed

lemma keys_overwrite:
  "map fst (map (\<lambda>(k', v'). if k' = k then (k', v) else (k', v')) obj) = map fst obj"
proof (induction obj)
  case Nil
  then show ?case by simp
next
  case (Cons p obj)
  obtain a b where p: "p = (a, b)" by (cases p)
  show ?case using Cons.IH by (simp add: p)
qed

lemma keys_obj_set: "set (map fst (obj_set k v obj)) = insert k (set (map fst obj))"
proof (cases "k \<in> fst ` set obj")
  case True
  then show ?thesis by (simp only: obj_set_existing keys_overwrite) auto
next
  case False
  from obj_set_new[OF False, of v]
  obtain xs ys where o: "obj = xs @ ys" and s: "obj_set k v obj = xs @ (k, v) # ys"
    by (elim exE conjE)
  have s': "obj_set k v (xs @ ys) = xs @ (k, v) # ys" using s o by simp
  show ?thesis unfolding o s' by simp
qed

lemma distinct_obj_set:
  assumes "distinct (map fst obj)" shows "distinct (map fst (obj_set k v obj))"
proof (cases "k \<in> fst ` set obj")
  case True
  then show ?thesis using assms by (simp only: obj_set_existing keys_overwrite)
next
  case False
  from obj_set_new[OF False, of v]
  obtain xs ys where o: "obj = xs @ ys" and s: "obj_set k v obj = xs @ (k, v) # ys"
    by (elim exE conjE)
  have s': "obj_set k v (xs @ ys) = xs @ (k, v) # ys" using s o by simp
  show ?thesis using False assms unfolding o s' by auto
qed


lemma init_years_foldl:
  "init_years y END_YEAR arrearsMap = foldl (\<lambda>m y. obj_set y None m) arrearsMap [y..END_YEAR]"
proof (induction y END_YEAR arrearsMap rule: init_years.induct)
  case (1 y END_YEAR arrearsMap)
  show ?case
  proof (cases "y \<le> END_YEAR")
    case True
    have "[y..END_YEAR] = y # [y + 1..END_YEAR]" using True by (rule upto_rec1)
    then show ?thesis using 1 True
      by (subst init_years.simps) simp
  next
    case False
    then show ?thesis by (subst init_years.simps) simp
  qed
qed

section \<open>Normalization\<close>

lemma keys_init_fold:
  "set (map fst (foldl (\<lambda>m y. obj_set y None m) m ys)) = set ys \<union> set (map fst m)"
proof (induction ys arbitrary: m)
  case Nil
  then show ?case by simp
next
  case (Cons y ys)
  show ?case by (simp only: foldl_Cons Cons.IH keys_obj_set) auto
qed

lemma distinct_init_fold:
  "distinct (map fst m) \<Longrightarrow> distinct (map fst (foldl (\<lambda>m y. obj_set y v m) m ys))"
  by (induction ys arbitrary: m) (simp_all add: distinct_obj_set)

lemma get_init_fold:
  "obj_get (foldl (\<lambda>m y. obj_set y None m) m ys) x =
     (if x \<in> set ys then Some None else obj_get m x)"
proof (induction ys arbitrary: m)
  case Nil
  then show ?case by simp
next
  case (Cons y ys)
  show ?case by (simp only: foldl_Cons Cons.IH obj_get_obj_set) auto
qed

lemma keys_fill_arrear:
  "set (map fst (fill_arrear S E m a)) =
     (if S \<le> year a \<and> year a \<le> E then insert (year a) (set (map fst m)) else set (map fst m))"
  by (auto simp: fill_arrear_def keys_obj_set simp del: set_map)

lemma keys_fill_fold:
  "{S..E} \<subseteq> set (map fst m) \<Longrightarrow>
   set (map fst (foldl (fill_arrear S E) m as)) = set (map fst m)"
proof (induction as arbitrary: m)
  case Nil
  then show ?case by simp
next
  case (Cons a as)
  have k: "set (map fst (fill_arrear S E m a)) = set (map fst m)"
    using Cons.prems by (simp only: keys_fill_arrear) auto
  show ?case using Cons.IH[of "fill_arrear S E m a"] Cons.prems k by simp
qed

lemma distinct_fill_fold:
  "distinct (map fst m) \<Longrightarrow> distinct (map fst (foldl (fill_arrear S E) m as))"
proof (induction as arbitrary: m)
  case Nil
  then show ?case by simp
next
  case (Cons a as)
  have "distinct (map fst (fill_arrear S E m a))"
    using Cons.prems unfolding fill_arrear_def by (simp add: distinct_obj_set)
  then show ?case using Cons.IH by simp
qed

lemma get_fill_fold:
  "obj_get (foldl (fill_arrear S E) m as) y =
     (if filter (\<lambda>a. year a = y \<and> S \<le> year a \<and> year a \<le> E) as = [] then obj_get m y
      else Some (Some (kurangBayar (last (filter (\<lambda>a. year a = y \<and> S \<le> year a \<and> year a \<le> E) as)))))"
proof (induction as rule: rev_induct)
  case Nil
  then show ?case by simp
next
  case (snoc a as)
  show ?case
  proof (cases "year a = y \<and> S \<le> year a \<and> year a \<le> E")
    case True
    then show ?thesis
      by (simp add: fill_arrear_def obj_get_obj_set)
  next
    case False
    then have "obj_get (fill_arrear S E (foldl (fill_arrear S E) m as) a) y
                 = obj_get (foldl (fill_arrear S E) m as) y"
      by (auto simp: fill_arrear_def obj_get_obj_set)
    then show ?thesis using False snoc.IH by simp
  qed
qed

lemma fill_fold_in_range:
  "foldl (fill_arrear S E) m (filter (\<lambda>a. S \<le> year a \<and> year a \<le> E) as)
     = foldl (fill_arrear S E) m as"
  by (induction as arbitrary: m) (simp_all add: fill_arrear_def)

lemma arrears_normalize_item:
  "arrears (normalize_item S E item) =
     foldl (fill_arrear S E) (foldl (\<lambda>m y. obj_set y None m) [] [S..E]) (item_arrears item)"
  by (simp add: normalize_item_def Let_def init_years_foldl)

lemma normalization_keys:
  fixes item :: "'n::{plus,zero,ord} raw_item"
  shows "distinct (map fst (arrears (normalize_item S E item)))"
    and
  "set (map fst (arrears (normalize_item S E item))) = {S..E}"
proof -
  let ?init = "foldl (\<lambda>m y. obj_set y (None::'n option) m) [] [S..E]"
  have init_keys: "set (map fst ?init) = {S..E}"
    by (simp only: keys_init_fold) simp
  have init_distinct: "distinct (map fst ?init)"
    by (rule distinct_init_fold) simp
  show "distinct (map fst (arrears (normalize_item S E item)))"
    by (simp only: arrears_normalize_item distinct_fill_fold[OF init_distinct])
  show "set (map fst (arrears (normalize_item S E item))) = {S..E}"
    using keys_fill_fold[of S E ?init "item_arrears item"] init_keys
    by (simp only: arrears_normalize_item)
qed

lemma normalization_get:
  fixes item :: "'n::{plus,zero,ord} raw_item"
  assumes y: "y \<in> {S..E}"
  shows "obj_get (arrears (normalize_item S E item)) y =
          Some (if filter (\<lambda>a. year a = y) (item_arrears item) = [] then None
                else Some (kurangBayar (last (filter (\<lambda>a. year a = y) (item_arrears item)))))"
proof -
  let ?init = "foldl (\<lambda>m y. obj_set y (None::'n option) m) [] [S..E]"
  have f: "filter (\<lambda>a. year a = y \<and> S \<le> year a \<and> year a \<le> E) (item_arrears item)
           = filter (\<lambda>a. year a = y) (item_arrears item)"
    using y by (intro filter_cong) auto
  have g: "obj_get ?init y = Some None"
    using y by (simp only: get_init_fold) simp
  show ?thesis
    by (simp only: arrears_normalize_item get_fill_fold f g) simp
qed

text \<open>
  Claim C1. For every range [START_YEAR, END_YEAR] and every extracted item, the year
  mapping built by the normalization of processTaxPDF has exactly one entry per year of
  the range (its keys are distinct and are exactly the years of the range); the entry of
  a year with no extracted pair is the null marker, the entry of a year with extracted
  pairs is the literal amount of the source (of the last pair for that year, an explicit
  zero included); and the pairs whose year lies outside the range are dropped: removing
  them from the item changes nothing in the record, neither the mapping nor the total.
\<close>

theorem normalization_year_mapping:
  "distinct (map fst (arrears (normalize_item START_YEAR END_YEAR item)))
   \<and> set (map fst (arrears (normalize_item START_YEAR END_YEAR item))) = {START_YEAR..END_YEAR}
   \<and> (\<forall>y \<in> {START_YEAR..END_YEAR}.
        obj_get (arrears (normalize_item START_YEAR END_YEAR item)) y =
          Some (if filter (\<lambda>a. year a = y) (item_arrears item) = [] then None
                else Some (kurangBayar (last (filter (\<lambda>a. year a = y) (item_arrears item))))))
   \<and> normalize_item START_YEAR END_YEAR
        (item\<lparr>item_arrears :=
                filter (\<lambda>a. START_YEAR \<le> year a \<and> year a \<le> END_YEAR) (item_arrears item)\<rparr>)
       = normalize_item START_YEAR END_YEAR item"
proof (intro conjI ballI)
  show "distinct (map fst (arrears (normalize_item START_YEAR END_YEAR item)))"
    by (rule normalization_keys)
  show "set (map fst (arrears (normalize_item START_YEAR END_YEAR item))) = {START_YEAR..END_YEAR}"
    by (rule normalization_keys)
  show "normalize_item START_YEAR END_YEAR
        (item\<lparr>item_arrears :=
                filter (\<lambda>a. START_YEAR \<le> year a \<and> year a \<le> END_YEAR) (item_arrears item)\<rparr>)
       = normalize_item START_YEAR END_YEAR item"
    by (simp add: normalize_item_def Let_def fill_fold_in_range)
next
  fix y assume y: "y \<in> {START_YEAR..END_YEAR}"
  show "obj_get (arrears (normalize_item START_YEAR END_YEAR item)) y =
          Some (if filter (\<lambda>a. year a = y) (item_arrears item) = [] then None
                else Some (kurangBayar (last (filter (\<lambda>a. year a = y) (item_arrears item)))))"
    using y by (rule normalization_get)
qed

theorem normalization_year_mapping_witness:
  "(2020::int) \<in> {2020..2022} \<and> (2021::int) \<in> {2020..2022} \<and> (2022::int) \<in> {2020..2022}
   \<and> obj_get (arrears (normalize_item 2020 2022
         \<lparr>item_nama = ''Budi'', item_nop = ''123'',
          item_arrears = [\<lparr>year = 2021, kurangBayar = 500::rat\<rparr>, \<lparr>year = 2022, kurangBayar = 0\<rparr>,
                          \<lparr>year = 2019, kurangBayar = 70\<rparr>]\<rparr>)) 2020 = Some None
   \<and> obj_get (arrears (normalize_item 2020 2022
         \<lparr>item_nama = ''Budi'', item_nop = ''123'',
          item_arrears = [\<lparr>year = 2021, kurangBayar = 500::rat\<rparr>, \<lparr>year = 2022, kurangBayar = 0\<rparr>,
                          \<lparr>year = 2019, kurangBayar = 70\<rparr>]\<rparr>)) 2021 = Some (Some 500)
   \<and> obj_get (arrears (normalize_item 2020 2022
         \<lparr>item_nama = ''Budi'', item_nop = ''123'',
          item_arrears = [\<lparr>year = 2021, kurangBayar = 500::rat\<rparr>, \<lparr>year = 2022, kurangBayar = 0\<rparr>,
                          \<lparr>year = 2019, kurangBayar = 70\<rparr>]\<rparr>)) 2022 = Some (Some 0)"
  using normalization_year_mapping [of 2020 2022
         "\<lparr>item_nama = ''Budi'', item_nop = ''123'',
          item_arrears = [\<lparr>year = 2021, kurangBayar = 500::rat\<rparr>, \<lparr>year = 2022, kurangBayar = 0\<rparr>,
                          \<lparr>year = 2019, kurangBayar = 70\<rparr>]\<rparr>"]
  by simp

section \<open>The stored total\<close>

lemma sum_positive_fold:
  fixes acc :: "'n::{plus,zero,ord}"
  assumes absorb: "\<And>(s::'n) v. 0 < v \<Longrightarrow> (s + v) + 0 = s + v"
  shows "acc + 0 = acc \<Longrightarrow>
     foldl (\<lambda>sum val. sum + (case val of None \<Rightarrow> 0
                                | Some numVal \<Rightarrow> if numVal > 0 then numVal else 0)) acc vals
       = foldl (+) acc (filter (\<lambda>v. 0 < v) (List.map_filter id vals))"
proof (induction vals arbitrary: acc)
  case Nil
  then show ?case by (simp add: List.map_filter_simps)
next
  case (Cons val vals)
  show ?case
  proof (cases val)
    case None
    then show ?thesis using Cons.IH[OF Cons.prems] Cons.prems
      by (simp add: List.map_filter_simps)
  next
    case (Some numVal)
    show ?thesis
    proof (cases "0 < numVal")
      case True
      have "(acc + numVal) + 0 = acc + numVal" using True by (rule absorb)
      from Cons.IH[OF this] show ?thesis using True Some
        by (simp add: List.map_filter_simps)
    next
      case False
      then show ?thesis using Cons.IH[OF Cons.prems] Cons.prems Some
        by (simp add: List.map_filter_simps)
    qed
  qed
qed

lemma sum_positive_spec:
  fixes obj :: "'n::{plus,zero,ord} option js_object"
  assumes "(0::'n) + 0 = 0" and "\<And>(s::'n) v. 0 < v \<Longrightarrow> (s + v) + 0 = s + v"
  shows "sum_positive (Object_values obj) = spec_positive_sum obj"
  unfolding sum_positive_def spec_positive_sum_def
  using sum_positive_fold[of 0 "Object_values obj", OF assms(2) assms(1)] by simp

lemma processTaxPDF_Inr:
  "processTaxPDF S E gen parse b m s = (Inr rs, s') \<Longrightarrow>
   \<exists>rawData. rs = map (normalize_item S E) rawData"
  by (auto simp: processTaxPDF_def split: prod.splits sum.splits)

lemma total_normalize_item:
  "total (normalize_item S E item) = sum_positive (Object_values (arrears (normalize_item S E item)))"
  by (simp add: normalize_item_def Let_def)

lemma obj_set_append:
  assumes "is_array_index k" and "\<forall>k' \<in> fst ` set obj. is_array_index k' \<and> k' < k"
  shows "obj_set k v obj = obj @ [(k, v)]"
proof -
  let ?P = "\<lambda>(k', v'::'a). is_array_index k' \<and> k' < k"
  have all: "\<forall>p \<in> set obj. ?P p" using assms(2) by force
  have new: "k \<notin> fst ` set obj" using assms(2) by force
  have t: "takeWhile ?P obj = obj" using all by (simp add: takeWhile_eq_all_conv)
  have d: "dropWhile ?P obj = []" using all by simp
  show ?thesis
    unfolding obj_set_def using new assms(1) by (simp only: if_False if_True t d)
qed

lemma init_years_order:
  "0 \<le> y \<Longrightarrow> END_YEAR < 4294967295 \<Longrightarrow>
   \<forall>k' \<in> fst ` set arrearsMap. is_array_index k' \<and> k' < y \<Longrightarrow>
   map fst (init_years y END_YEAR arrearsMap) = map fst arrearsMap @ [y..END_YEAR]"
proof (induction y END_YEAR arrearsMap rule: init_years.induct)
  case (1 y END_YEAR arrearsMap)
  show ?case
  proof (cases "y \<le> END_YEAR")
    case True
    have ix: "is_array_index y" using True "1.prems" by (simp add: is_array_index_def)
    have app: "obj_set y None arrearsMap = arrearsMap @ [(y, None)]"
      using obj_set_append[OF ix "1.prems"(3)] by simp
    have below: "\<forall>k' \<in> fst ` set (obj_set y None arrearsMap). is_array_index k' \<and> k' < y + 1"
      using "1.prems"(3) ix by (auto simp: app)
    have up: "[y..END_YEAR] = y # [y + 1..END_YEAR]" using True by (rule upto_rec1)
    have "map fst (init_years (y + 1) END_YEAR (obj_set y None arrearsMap))
            = map fst (obj_set y None arrearsMap) @ [y + 1..END_YEAR]"
      using "1.IH"[OF True _ "1.prems"(2) below] "1.prems"(1) by simp
    then show ?thesis
      using True by (subst init_years.simps) (simp add: app up)
  next
    case False
    then show ?thesis by (subst init_years.simps) simp
  qed
qed

lemma keys_fill_fold_order:
  "{S..E} \<subseteq> set (map fst m) \<Longrightarrow> map fst (foldl (fill_arrear S E) m as) = map fst m"
proof (induction as arbitrary: m)
  case Nil
  then show ?case by simp
next
  case (Cons a as)
  have k: "map fst (fill_arrear S E m a) = map fst m"
  proof (cases "S \<le> year a \<and> year a \<le> E")
    case True
    then have "year a \<in> fst ` set m" using Cons.prems by auto
    then have "map fst (obj_set (year a) (Some (kurangBayar a)) m) = map fst m"
      by (simp only: obj_set_existing keys_overwrite)
    moreover have "fill_arrear S E m a = obj_set (year a) (Some (kurangBayar a)) m"
      using True by (simp add: fill_arrear_def)
    ultimately show ?thesis by (simp only:)
  next
    case False
    then show ?thesis unfolding fill_arrear_def by auto
  qed
  show ?case using Cons.IH[of "fill_arrear S E m a"] Cons.prems k by simp
qed

lemma normalization_order:
  fixes item :: "'n::{plus,zero,ord} raw_item"
  assumes "0 \<le> S" and "E < 4294967295"
  shows "map fst (arrears (normalize_item S E item)) = [S..E]"
proof -
  have i: "map fst (init_years S E ([] :: 'n option js_object)) = [S..E]"
    using init_years_order[of S E "[]"] assms by simp
  then have "{S..E} \<subseteq> set (map fst (init_years S E ([] :: 'n option js_object)))" by simp
  from keys_fill_fold_order[OF this, of "item_arrears item"] show ?thesis
    using i by (simp add: normalize_item_def Let_def)
qed

text \<open>
  Claim C2. For every record returned by processTaxPDF, the stored total is the sum of
  the strictly positive amounts of the record's year mapping: the null entries and the
  amounts that are not above zero contribute nothing, and the strictly positive amounts
  are added up from zero in the order of the mapping's entries, which, for a range of
  years between 0 and 2^32 - 2, is the ascending order of the years. Of the arithmetic
  of numbers only this is assumed: zero plus zero is zero, and adding zero to a sum
  whose last term is above zero leaves it as it is.
\<close>

theorem total_is_positive_sum:
  fixes r :: "'n::{plus,zero,ord} TaxRecord"
  assumes "(0::'n) + 0 = 0"
    and "\<And>(s::'n) v. 0 < v \<Longrightarrow> (s + v) + 0 = s + v"
    and "processTaxPDF START_YEAR END_YEAR generateContent JSON_parse fileBase64 mimeType s = (Inr rs, s')"
    and "r \<in> set rs"
  shows "total r = spec_positive_sum (arrears r)
     \<and> (0 \<le> START_YEAR \<and> END_YEAR < 4294967295 \<longrightarrow> map fst (arrears r) = [START_YEAR..END_YEAR])"
proof -
  from assms(3,4) obtain item where r: "r = normalize_item START_YEAR END_YEAR item"
    using processTaxPDF_Inr[OF assms(3)] by auto
  have "total r = sum_positive (Object_values (arrears r))"
    by (simp only: r total_normalize_item)
  then have t: "total r = spec_positive_sum (arrears r)"
    using sum_positive_spec[of "arrears r", OF assms(1,2)] by simp
  have "map fst (arrears r) = [START_YEAR..END_YEAR]"
    if "0 \<le> START_YEAR \<and> END_YEAR < 4294967295"
    using that normalization_order[of START_YEAR END_YEAR item] by (simp add: r)
  then show ?thesis using t by blast
qed

lemma total_example_run:
  "processTaxPDF 2020 2024
     (\<lambda>fileBase64 mimeType w. (Inr \<lparr>response_text = Some ''[{}]''\<rparr>, w))
     (\<lambda>t. Inr [\<lparr>item_nama = ''Budi'', item_nop = ''123'',
                  item_arrears = [\<lparr>year = 2020, kurangBayar = 500::rat\<rparr>, \<lparr>year = 2021, kurangBayar = 0\<rparr>,
                                  \<lparr>year = 2023, kurangBayar = - 20\<rparr>, \<lparr>year = 2024, kurangBayar = 250\<rparr>]\<rparr>])
     ''JVBERi0='' ''application/pdf'' \<lparr>world = (), timeouts = []\<rparr>
   = (Inr [\<lparr>nama = ''Budi'', nop = ''123'',
            arrears = [(2020, Some 500), (2021, Some 0), (2022, None), (2023, Some (- 20)), (2024, Some 250)],
            total = 750, notes = []\<rparr>],
      \<lparr>world = (), timeouts = []\<rparr>)"
  by code_simp

theorem total_is_positive_sum_witness:
  "total \<lparr>nama = ''Budi'', nop = ''123'',
            arrears = [(2020, Some 500), (2021, Some 0), (2022, None), (2023, Some (- 20)), (2024, Some 250)],
            total = 750::rat, notes = []\<rparr> = 750
   \<and> spec_positive_sum [(2020, Some 500), (2021, Some 0), (2022, None), (2023, Some (- 20)), (2024, Some 250)]
       = (750::rat)
   \<and> map fst [(2020::int, Some 500), (2021, Some 0), (2022, None), (2023, Some (- 20)), (2024, Some (250::rat))]
       = [2020..2024]"
proof -
  have zero: "(0::rat) + 0 = 0" by simp
  have absorb: "\<And>(s::rat) v. 0 < v \<Longrightarrow> (s + v) + 0 = s + v" by simp
  show ?thesis
    using total_is_positive_sum [OF zero absorb total_example_run,
      of "\<lparr>nama = ''Budi'', nop = ''123'',
            arrears = [(2020, Some 500), (2021, Some 0), (2022, None), (2023, Some (- 20)), (2024, Some 250)],
            total = 750, notes = []\<rparr>"]
    by simp
qed

section \<open>The retry wrapper\<close>

lemma withRetry_loop_done:
  "\<not> i < maxRetries \<Longrightarrow>
   withRetry_loop fn maxRetries i delay s = (Inl (Error (Some ''Max retries exceeded'')), s)"
  by (subst withRetry_loop.simps) simp

lemma withRetry_loop_success:
  "i < maxRetries \<Longrightarrow> fn (world s) = (Inr v, w') \<Longrightarrow>
   withRetry_loop fn maxRetries i delay s = (Inr v, s\<lparr>world := w'\<rparr>)"
  by (subst withRetry_loop.simps) (simp add: await_call_def)

lemma withRetry_loop_throw:
  "i < maxRetries \<Longrightarrow> fn (world s) = (Inl err, w') \<Longrightarrow>
   i = maxRetries - 1 \<or> \<not> isRetryable err \<Longrightarrow>
   withRetry_loop fn maxRetries i delay s = (Inl err, s\<lparr>world := w'\<rparr>)"
  by (subst withRetry_loop.simps) (auto simp add: await_call_def)

lemma withRetry_loop_retry:
  "i < maxRetries - 1 \<Longrightarrow> fn (world s) = (Inl err, w') \<Longrightarrow> isRetryable err \<Longrightarrow>
   withRetry_loop fn maxRetries i delay s =
     withRetry_loop fn maxRetries (i + 1) (delay * 2) (sleep delay (s\<lparr>world := w'\<rparr>))"
  by (subst withRetry_loop.simps) (simp add: await_call_def)

lemma isRetryable_iff:
  "isRetryable err \<longleftrightarrow>
     (\<exists>m. message err = Some m \<and>
          (String_includes m ''429'' \<or> String_includes m ''500'' \<or> String_includes m ''503''))"
  by (simp add: isRetryable_def split: option.splits)

text \<open>
  Claim C3. With the default of 3 attempts: when the wrapped function fails on its first
  two calls with errors whose messages contain 429 and succeeds on its third call,
  withRetry returns the result of the third call, and the delays it has waited are
  exactly 2000 ms and then 4000 ms.
\<close>

theorem withRetry_two_failures_then_success:
  assumes "fn w0 = (Inl e1, w1)" and "fn w1 = (Inl e2, w2)" and "fn w2 = (Inr v, w3)"
    and "message e1 = Some m1" and "String_includes m1 ''429''"
    and "message e2 = Some m2" and "String_includes m2 ''429''"
  shows "withRetry_default fn \<lparr>world = w0, timeouts = ts\<rparr>
           = (Inr v, \<lparr>world = w3, timeouts = ts @ [2000, 4000]\<rparr>)"
proof -
  have r1: "isRetryable e1" and r2: "isRetryable e2"
    using assms by (simp_all add: isRetryable_iff)
  have "withRetry_loop fn 3 0 2000 \<lparr>world = w0, timeouts = ts\<rparr>
          = withRetry_loop fn 3 1 4000 \<lparr>world = w1, timeouts = ts @ [2000]\<rparr>"
    using withRetry_loop_retry[of 0 3 fn "\<lparr>world = w0, timeouts = ts\<rparr>" e1 w1 2000] assms(1) r1
    by (simp add: sleep_def)
  also have "\<dots> = withRetry_loop fn 3 2 8000 \<lparr>world = w2, timeouts = ts @ [2000, 4000]\<rparr>"
    using withRetry_loop_retry[of 1 3 fn "\<lparr>world = w1, timeouts = ts @ [2000]\<rparr>" e2 w2 4000] assms(2) r2
    by (simp add: sleep_def)
  also have "\<dots> = (Inr v, \<lparr>world = w3, timeouts = ts @ [2000, 4000]\<rparr>)"
    using withRetry_loop_success[of 2 3 fn "\<lparr>world = w2, timeouts = ts @ [2000, 4000]\<rparr>" v w3 8000] assms(3)
    by simp
  finally show ?thesis by (simp add: withRetry_default_def withRetry_def)
qed

theorem withRetry_two_failures_then_success_witness:
  "withRetry_default
     (\<lambda>k::nat. (if k < 2 then Inl (Error (Some ''got status: 429 Too Many Requests''))
                 else Inr ''ok'', k + 1))
     \<lparr>world = 0, timeouts = []\<rparr>
   = (Inr ''ok'', \<lparr>world = 3, timeouts = [2000, 4000]\<rparr>)"
proof -
  have inc: "String_includes ''got status: 429 Too Many Requests'' ''429''"
    by code_simp
  show ?thesis
    using withRetry_two_failures_then_success
      [of "\<lambda>k::nat. (if k < 2 then Inl (Error (Some ''got status: 429 Too Many Requests''))
                        else Inr ''ok'', k + 1)"
          0 "Error (Some ''got status: 429 Too Many Requests'')" 1
          "Error (Some ''got status: 429 Too Many Requests'')" 2 "''ok''" 3
          "''got status: 429 Too Many Requests''" "''got status: 429 Too Many Requests''" "[]"]
      inc
    by simp
qed

lemma withRetry_loop_persistent:
  assumes fail: "\<And>w. \<exists>err w'. fn w = (Inl err, w') \<and> isRetryable err"
  shows "nat (maxRetries - i) = Suc k \<Longrightarrow>
     withRetry_loop fn maxRetries i delay s =
       (fst (fn (((snd \<circ> fn) ^^ k) (world s))),
        s\<lparr>world := ((snd \<circ> fn) ^^ Suc k) (world s),
          timeouts := timeouts s @ map (\<lambda>j. delay * 2 ^ j) [0..<k]\<rparr>)"
proof (induction k arbitrary: i delay s)
  case 0
  then have i: "i < maxRetries" "i = maxRetries - 1" by auto
  from fail obtain err w' where f: "fn (world s) = (Inl err, w')" by blast
  show ?case
    using withRetry_loop_throw[of i maxRetries fn s err w' delay] i f by simp
next
  case (Suc k)
  then have i: "i < maxRetries - 1" and n: "nat (maxRetries - (i + 1)) = Suc k" by auto
  from fail obtain err w' where f: "fn (world s) = (Inl err, w')" and r: "isRetryable err" by blast
  have shift: "map (\<lambda>j. delay * 2 ^ j) [0..<Suc k] = delay # map (\<lambda>j. delay * 2 * 2 ^ j) [0..<k]"
    by (simp only: upt_conv_Cons[of 0 "Suc k"] map_Suc_upt[symmetric] list.map) (simp add: comp_def)
  have "withRetry_loop fn maxRetries i delay s =
          withRetry_loop fn maxRetries (i + 1) (delay * 2) (sleep delay (s\<lparr>world := w'\<rparr>))"
    using withRetry_loop_retry[of i maxRetries fn s err w' delay] i f r by simp
  also have "\<dots> =
       (fst (fn (((snd \<circ> fn) ^^ k) (world (sleep delay (s\<lparr>world := w'\<rparr>))))),
        (sleep delay (s\<lparr>world := w'\<rparr>))
          \<lparr>world := ((snd \<circ> fn) ^^ Suc k) (world (sleep delay (s\<lparr>world := w'\<rparr>))),
           timeouts := timeouts (sleep delay (s\<lparr>world := w'\<rparr>)) @ map (\<lambda>j. delay * 2 * 2 ^ j) [0..<k]\<rparr>)"
    by (rule Suc.IH[OF n])
  finally have step: "withRetry_loop fn maxRetries i delay s =
       (fst (fn (((snd \<circ> fn) ^^ k) w')),
        s\<lparr>world := ((snd \<circ> fn) ^^ Suc k) w',
          timeouts := timeouts s @ delay # map (\<lambda>j. delay * 2 * 2 ^ j) [0..<k]\<rparr>)"
    by (simp add: sleep_def del: funpow.simps)
  have w': "w' = (snd \<circ> fn) (world s)" using f by simp
  have p1: "((snd \<circ> fn) ^^ k) w' = ((snd \<circ> fn) ^^ Suc k) (world s)"
    unfolding w' by (simp only: funpow_Suc_right o_apply)
  have p2: "((snd \<circ> fn) ^^ Suc k) w' = ((snd \<circ> fn) ^^ Suc (Suc k)) (world s)"
    unfolding w' by (simp only: funpow_Suc_right[of "Suc k"] o_apply)
  show ?case
    by (simp only: step p1 p2 shift)
qed

lemma withRetry_loop_calls_bound:
  "snd (world (snd (withRetry_loop (count_calls fn) maxRetries i delay s)))
     \<le> snd (world s) + nat (maxRetries - i)"
proof (induction "count_calls fn" maxRetries i delay s rule: withRetry_loop.induct)
  case (1 maxRetries i delay s)
  show ?case
  proof (cases "i < maxRetries")
    case False
    then show ?thesis by (simp add: withRetry_loop_done)
  next
    case True
    obtain w n where ws: "world s = (w, n)" by (cases "world s")
    obtain r w' where f: "fn w = (r, w')" by (cases "fn w")
    have cc: "count_calls fn (world s) = (r, (w', Suc n))"
      by (simp add: count_calls_def ws f)
    show ?thesis
    proof (cases r)
      case (Inr v)
      then show ?thesis
        using withRetry_loop_success[of i maxRetries "count_calls fn" s v "(w', Suc n)" delay] cc True ws
        by simp
    next
      case (Inl err)
      show ?thesis
      proof (cases "i = maxRetries - 1 \<or> \<not> isRetryable err")
        case stop: True
        then show ?thesis
          using withRetry_loop_throw[of i maxRetries "count_calls fn" s err "(w', Suc n)" delay] cc Inl True ws
          by simp
      next
        case go: False
        then have i: "i < maxRetries - 1" and r: "isRetryable err" using True by auto
        have aw: "await_call (count_calls fn) s = (Inl err, s\<lparr>world := (w', Suc n)\<rparr>)"
          using cc Inl by (simp add: await_call_def)
        have "snd (world (snd (withRetry_loop (count_calls fn) maxRetries (i + 1) (delay * 2)
                  (sleep delay (s\<lparr>world := (w', Suc n)\<rparr>)))))
               \<le> snd (world (sleep delay (s\<lparr>world := (w', Suc n)\<rparr>))) + nat (maxRetries - (i + 1))"
          using 1[OF True aw[symmetric] refl] go by simp
        moreover have "Suc (nat (maxRetries - (i + 1))) = nat (maxRetries - i)"
          using i by simp
        ultimately show ?thesis
          using withRetry_loop_retry[of i maxRetries "count_calls fn" s err "(w', Suc n)" delay] cc Inl r i ws
          by (simp add: sleep_def)
      qed
    qed
  qed
qed

lemma withRetry_loop_trace:
  assumes retry: "\<forall>j<k. \<exists>err. attempt_outcome fn j (world s) = Inl err \<and> isRetryable err"
    and bound: "i + int k < maxRetries"
    and stop: "i + int k = maxRetries - 1
               \<or> (\<exists>v. attempt_outcome fn k (world s) = Inr v)
               \<or> (\<exists>err. attempt_outcome fn k (world s) = Inl err \<and> \<not> isRetryable err)"
  shows "withRetry_loop fn maxRetries i delay s =
       (attempt_outcome fn k (world s),
        s\<lparr>world := attempt_world fn (Suc k) (world s),
          timeouts := timeouts s @ map (\<lambda>j. delay * 2 ^ j) [0..<k]\<rparr>)"
  using retry bound stop
proof (induction k arbitrary: i delay s)
  case 0
  obtain r w' where f: "fn (world s) = (r, w')" by (cases "fn (world s)")
  have i: "i < maxRetries" using "0.prems"(2) by simp
  have out: "attempt_outcome fn 0 (world s) = r"
    by (simp add: attempt_outcome_def attempt_world_def f)
  have w: "attempt_world fn (Suc 0) (world s) = w'"
    by (simp add: attempt_world_def f)
  have "withRetry_loop fn maxRetries i delay s = (r, s\<lparr>world := w'\<rparr>)"
  proof (cases r)
    case (Inr v)
    then show ?thesis using withRetry_loop_success[of i maxRetries fn s v w' delay] i f by simp
  next
    case (Inl err)
    then have "i = maxRetries - 1 \<or> \<not> isRetryable err"
      using "0.prems"(3) out by auto
    then show ?thesis using withRetry_loop_throw[of i maxRetries fn s err w' delay] i f Inl by simp
  qed
  then show ?case by (simp add: out w)
next
  case (Suc k)
  from Suc.prems(1) obtain err where
    o: "attempt_outcome fn 0 (world s) = Inl err" and r: "isRetryable err" by auto
  obtain w' where f: "fn (world s) = (Inl err, w')"
    using o by (cases "fn (world s)") (simp add: attempt_outcome_def attempt_world_def)
  let ?s' = "sleep delay (s\<lparr>world := w'\<rparr>)"
  have i: "i < maxRetries - 1" using Suc.prems(2) by simp
  have shiftw: "attempt_world fn j w' = attempt_world fn (Suc j) (world s)" for j
    using f by (simp add: attempt_world_def funpow_swap1)
  have shifto: "attempt_outcome fn j w' = attempt_outcome fn (Suc j) (world s)" for j
    by (simp only: attempt_outcome_def shiftw)
  have ws': "world ?s' = w'" by (simp add: sleep_def)
  have retry': "\<forall>j<k. \<exists>err. attempt_outcome fn j (world ?s') = Inl err \<and> isRetryable err"
    using Suc.prems(1) by (simp only: ws' shifto) auto
  have bound': "(i + 1) + int k < maxRetries" using Suc.prems(2) by simp
  have stop': "(i + 1) + int k = maxRetries - 1
               \<or> (\<exists>v. attempt_outcome fn k (world ?s') = Inr v)
               \<or> (\<exists>err. attempt_outcome fn k (world ?s') = Inl err \<and> \<not> isRetryable err)"
    using Suc.prems(3) by (simp only: ws' shifto) (simp add: add.assoc add.commute)
  have shift: "map (\<lambda>j. delay * 2 ^ j) [0..<Suc k] = delay # map (\<lambda>j. delay * 2 * 2 ^ j) [0..<k]"
    by (simp only: upt_conv_Cons[of 0 "Suc k"] map_Suc_upt[symmetric] list.map) (simp add: comp_def)
  have "withRetry_loop fn maxRetries i delay s
          = withRetry_loop fn maxRetries (i + 1) (delay * 2) ?s'"
    using withRetry_loop_retry[of i maxRetries fn s err w' delay] i f r by simp
  also have "\<dots> = (attempt_outcome fn k (world ?s'),
        ?s'\<lparr>world := attempt_world fn (Suc k) (world ?s'),
           timeouts := timeouts ?s' @ map (\<lambda>j. delay * 2 * 2 ^ j) [0..<k]\<rparr>)"
    by (rule Suc.IH[OF retry' bound' stop'])
  also have "\<dots> = (attempt_outcome fn (Suc k) (world s),
        s\<lparr>world := attempt_world fn (Suc (Suc k)) (world s),
          timeouts := timeouts s @ map (\<lambda>j. delay * 2 ^ j) [0..<Suc k]\<rparr>)"
    by (simp only: ws' shifto shiftw shift) (simp add: sleep_def)
  finally show ?case .
qed

lemma first_stop_exists:
  assumes "0 < maxRetries"
  shows "\<exists>k. int k < maxRetries
           \<and> (\<forall>j<k. \<exists>err. attempt_outcome fn j w = Inl err \<and> isRetryable err)
           \<and> (int k = maxRetries - 1
               \<or> (\<exists>v. attempt_outcome fn k w = Inr v)
               \<or> (\<exists>err. attempt_outcome fn k w = Inl err \<and> \<not> isRetryable err))"
proof -
  let ?P = "\<lambda>k. int k = maxRetries - 1
               \<or> (\<exists>v. attempt_outcome fn k w = Inr v)
               \<or> (\<exists>err. attempt_outcome fn k w = Inl err \<and> \<not> isRetryable err)"
  let ?n = "nat maxRetries - 1"
  have last: "?P ?n" using assms by simp
  let ?k = "LEAST k. ?P k"
  have pk: "?P ?k" using last by (rule LeastI)
  have le: "?k \<le> ?n" using last by (rule Least_le)
  have before: "\<exists>err. attempt_outcome fn j w = Inl err \<and> isRetryable err" if "j < ?k" for j
  proof -
    have n: "\<not> ?P j" using that by (rule not_less_Least)
    show ?thesis
    proof (cases "attempt_outcome fn j w")
      case (Inl err)
      then show ?thesis using n by auto
    next
      case (Inr v)
      then show ?thesis using n by auto
    qed
  qed
  have "int ?k < maxRetries" using le assms by linarith
  then show ?thesis using before pk by blast
qed

text \<open>
  Claim C4. withRetry retries an error exactly when its message contains 429, 500 or 503:
  with at least one attempt allowed, a first error whose message contains none of them
  is propagated at once, after one call and no delay; a first error whose message
  contains one of them, with attempts left, is followed by a delay of 2000 ms and a
  second call, whose success is returned; when every call fails with such an error, the
  function is called maxRetries times in all, the delays are 2000, 4000, ... between the
  calls, and the error of the last call is propagated; and, whatever the function does,
  it is never called more than maxRetries times. In general: let call number k (counted
  from 0, below maxRetries) be the first that succeeds, or fails with an error whose
  message contains none of the three, or is the last allowed (such a call exists when
  maxRetries is positive); then withRetry makes the calls 0 to k and no other, waits
  2000, 4000, ..., 2000 * 2^(k-1) between them, and returns the result, or propagates
  the error, of call k. So an error is followed by a delay and another call if and only
  if its message contains 429, 500 or 503 and it is not the error of the last allowed
  call, at whichever attempt it occurs.
\<close>

theorem withRetry_policy:
  "(0 < maxRetries \<and> fn (world s) = (Inl err, w')
      \<and> \<not> (\<exists>m. message err = Some m \<and>
             (String_includes m ''429'' \<or> String_includes m ''500'' \<or> String_includes m ''503''))
     \<longrightarrow> withRetry fn maxRetries s = (Inl err, s\<lparr>world := w'\<rparr>))
   \<and> (1 < maxRetries \<and> fn (world s) = (Inl err, w')
      \<and> (\<exists>m. message err = Some m \<and>
             (String_includes m ''429'' \<or> String_includes m ''500'' \<or> String_includes m ''503''))
      \<and> fn w' = (Inr v, w'')
     \<longrightarrow> withRetry fn maxRetries s = (Inr v, s\<lparr>world := w'', timeouts := timeouts s @ [2000]\<rparr>))
   \<and> (0 < maxRetries
      \<and> (\<forall>w. \<exists>err w'. fn w = (Inl err, w') \<and>
             (\<exists>m. message err = Some m \<and>
               (String_includes m ''429'' \<or> String_includes m ''500'' \<or> String_includes m ''503'')))
     \<longrightarrow> withRetry fn maxRetries s =
           (fst (fn (((snd \<circ> fn) ^^ (nat maxRetries - 1)) (world s))),
            s\<lparr>world := ((snd \<circ> fn) ^^ nat maxRetries) (world s),
              timeouts := timeouts s @ map (\<lambda>j. 2000 * 2 ^ j) [0..<nat maxRetries - 1]\<rparr>))
   \<and> snd (world (snd (withRetry (count_calls fn) maxRetries \<lparr>world = (w, 0), timeouts = ts\<rparr>)))
        \<le> nat maxRetries
   \<and> (int k < maxRetries
      \<and> (\<forall>j<k. \<exists>err. attempt_outcome fn j (world s) = Inl err \<and>
             (\<exists>m. message err = Some m \<and>
               (String_includes m ''429'' \<or> String_includes m ''500'' \<or> String_includes m ''503'')))
      \<and> (int k = maxRetries - 1
          \<or> (\<exists>v. attempt_outcome fn k (world s) = Inr v)
          \<or> (\<exists>err. attempt_outcome fn k (world s) = Inl err \<and>
                \<not> (\<exists>m. message err = Some m \<and>
                  (String_includes m ''429'' \<or> String_includes m ''500'' \<or> String_includes m ''503''))))
     \<longrightarrow> withRetry fn maxRetries s =
           (attempt_outcome fn k (world s),
            s\<lparr>world := attempt_world fn (Suc k) (world s),
              timeouts := timeouts s @ map (\<lambda>j. 2000 * 2 ^ j) [0..<k]\<rparr>))
   \<and> (0 < maxRetries
     \<longrightarrow> (\<exists>k. int k < maxRetries
            \<and> (\<forall>j<k. \<exists>err. attempt_outcome fn j (world s) = Inl err \<and>
                 (\<exists>m. message err = Some m \<and>
                   (String_includes m ''429'' \<or> String_includes m ''500'' \<or> String_includes m ''503'')))
            \<and> (int k = maxRetries - 1
                \<or> (\<exists>v. attempt_outcome fn k (world s) = Inr v)
                \<or> (\<exists>err. attempt_outcome fn k (world s) = Inl err \<and>
                      \<not> (\<exists>m. message err = Some m \<and>
                        (String_includes m ''429'' \<or> String_includes m ''500''
                         \<or> String_includes m ''503''))))))"
proof (intro conjI impI)
  assume a: "0 < maxRetries \<and> fn (world s) = (Inl err, w')
      \<and> \<not> (\<exists>m. message err = Some m \<and>
             (String_includes m ''429'' \<or> String_includes m ''500'' \<or> String_includes m ''503''))"
  then have "\<not> isRetryable err" by (simp only: isRetryable_iff) simp
  then show "withRetry fn maxRetries s = (Inl err, s\<lparr>world := w'\<rparr>)"
    using a withRetry_loop_throw[of 0 maxRetries fn s err w' 2000]
    by (simp add: withRetry_def)
next
  assume a: "1 < maxRetries \<and> fn (world s) = (Inl err, w')
      \<and> (\<exists>m. message err = Some m \<and>
             (String_includes m ''429'' \<or> String_includes m ''500'' \<or> String_includes m ''503''))
      \<and> fn w' = (Inr v, w'')"
  then have r: "isRetryable err" by (simp only: isRetryable_iff)
  have "withRetry_loop fn maxRetries 0 2000 s
          = withRetry_loop fn maxRetries 1 4000 (s\<lparr>world := w', timeouts := timeouts s @ [2000]\<rparr>)"
    using a r withRetry_loop_retry[of 0 maxRetries fn s err w' 2000] by (simp add: sleep_def)
  also have "\<dots> = (Inr v, s\<lparr>world := w'', timeouts := timeouts s @ [2000]\<rparr>)"
    using a withRetry_loop_success[of 1 maxRetries fn
                "s\<lparr>world := w', timeouts := timeouts s @ [2000]\<rparr>" v w'' 4000]
    by simp
  finally show "withRetry fn maxRetries s = (Inr v, s\<lparr>world := w'', timeouts := timeouts s @ [2000]\<rparr>)"
    by (simp add: withRetry_def)
next
  assume a: "0 < maxRetries
      \<and> (\<forall>w. \<exists>err w'. fn w = (Inl err, w') \<and>
             (\<exists>m. message err = Some m \<and>
               (String_includes m ''429'' \<or> String_includes m ''500'' \<or> String_includes m ''503'')))"
  then have fail: "\<And>w. \<exists>err w'. fn w = (Inl err, w') \<and> isRetryable err"
    by (simp only: isRetryable_iff)
  have n: "nat (maxRetries - 0) = Suc (nat maxRetries - 1)" using a by simp
  show "withRetry fn maxRetries s =
           (fst (fn (((snd \<circ> fn) ^^ (nat maxRetries - 1)) (world s))),
            s\<lparr>world := ((snd \<circ> fn) ^^ nat maxRetries) (world s),
              timeouts := timeouts s @ map (\<lambda>j. 2000 * 2 ^ j) [0..<nat maxRetries - 1]\<rparr>)"
    using withRetry_loop_persistent[of fn maxRetries 0 "nat maxRetries - 1" 2000 s, OF fail n] a
    by (simp add: withRetry_def del: funpow.simps)
next
  show "snd (world (snd (withRetry (count_calls fn) maxRetries \<lparr>world = (w, 0), timeouts = ts\<rparr>)))
        \<le> nat maxRetries"
    using withRetry_loop_calls_bound[of fn maxRetries 0 2000 "\<lparr>world = (w, 0), timeouts = ts\<rparr>"]
    by (simp add: withRetry_def)
next
  assume a: "int k < maxRetries
      \<and> (\<forall>j<k. \<exists>err. attempt_outcome fn j (world s) = Inl err \<and>
             (\<exists>m. message err = Some m \<and>
               (String_includes m ''429'' \<or> String_includes m ''500'' \<or> String_includes m ''503'')))
      \<and> (int k = maxRetries - 1
          \<or> (\<exists>v. attempt_outcome fn k (world s) = Inr v)
          \<or> (\<exists>err. attempt_outcome fn k (world s) = Inl err \<and>
                \<not> (\<exists>m. message err = Some m \<and>
                  (String_includes m ''429'' \<or> String_includes m ''500'' \<or> String_includes m ''503''))))"
  then have a': "0 + int k < maxRetries
      \<and> (\<forall>j<k. \<exists>err. attempt_outcome fn j (world s) = Inl err \<and> isRetryable err)
      \<and> (0 + int k = maxRetries - 1
          \<or> (\<exists>v. attempt_outcome fn k (world s) = Inr v)
          \<or> (\<exists>err. attempt_outcome fn k (world s) = Inl err \<and> \<not> isRetryable err))"
    unfolding isRetryable_iff by simp
  show "withRetry fn maxRetries s =
           (attempt_outcome fn k (world s),
            s\<lparr>world := attempt_world fn (Suc k) (world s),
              timeouts := timeouts s @ map (\<lambda>j. 2000 * 2 ^ j) [0..<k]\<rparr>)"
    unfolding withRetry_def
    using a' by (intro withRetry_loop_trace) blast+
next
  assume "0 < maxRetries"
  from first_stop_exists[OF this, of fn "world s"]
  show "\<exists>k. int k < maxRetries
            \<and> (\<forall>j<k. \<exists>err. attempt_outcome fn j (world s) = Inl err \<and>
                 (\<exists>m. message err = Some m \<and>
                   (String_includes m ''429'' \<or> String_includes m ''500'' \<or> String_includes m ''503'')))
            \<and> (int k = maxRetries - 1
                \<or> (\<exists>v. attempt_outcome fn k (world s) = Inr v)
                \<or> (\<exists>err. attempt_outcome fn k (world s) = Inl err \<and>
                      \<not> (\<exists>m. message err = Some m \<and>
                        (String_includes m ''429'' \<or> String_includes m ''500''
                         \<or> String_includes m ''503''))))"
    by (simp only: isRetryable_iff)
qed

lemma policy_example_messages:
  "\<not> String_includes ''400 Bad Request'' ''429''"
  "\<not> String_includes ''400 Bad Request'' ''500''"
  "\<not> String_includes ''400 Bad Request'' ''503''"
  "String_includes ''503 Service Unavailable'' ''503''"
  "String_includes ''500 Internal Server Error'' ''500''"
  by code_simp+

theorem withRetry_policy_witness:
  "withRetry (\<lambda>k::nat. (Inl (Error (Some ''400 Bad Request'')) :: js_error + string, Suc k)) 3
      \<lparr>world = 0, timeouts = []\<rparr>
     = (Inl (Error (Some ''400 Bad Request'')), \<lparr>world = 1, timeouts = []\<rparr>)
   \<and> withRetry (\<lambda>k::nat. (if k = 0 then Inl (Error (Some ''503 Service Unavailable'')) else Inr ''ok'', Suc k)) 3
      \<lparr>world = 0, timeouts = []\<rparr>
     = (Inr ''ok'', \<lparr>world = 2, timeouts = [2000]\<rparr>)
   \<and> withRetry (\<lambda>k::nat. (Inl (Error (Some ''500 Internal Server Error'')) :: js_error + string, Suc k)) 3
      \<lparr>world = 0, timeouts = []\<rparr>
     = (Inl (Error (Some ''500 Internal Server Error'')), \<lparr>world = 3, timeouts = [2000, 4000]\<rparr>)
   \<and> snd (world (snd (withRetry
         (count_calls (\<lambda>k::nat. (Inl (Error (Some ''500 Internal Server Error'')) :: js_error + string, Suc k))) 3
         \<lparr>world = (0, 0), timeouts = []\<rparr>))) \<le> 3
   \<and> withRetry (\<lambda>k::nat. (if k = 0 then Inl (Error (Some ''503 Service Unavailable''))
                            else if k = 1 then Inl (Error (Some ''400 Bad Request''))
                            else Inr ''ok'', Suc k)) 3
      \<lparr>world = 0, timeouts = []\<rparr>
     = (Inl (Error (Some ''400 Bad Request'')), \<lparr>world = 2, timeouts = [2000]\<rparr>)"
proof -
  let ?f1 = "\<lambda>k::nat. (Inl (Error (Some ''400 Bad Request'')) :: js_error + string, Suc k)"
  let ?f2 = "\<lambda>k::nat. (if k = 0 then Inl (Error (Some ''503 Service Unavailable'')) else Inr ''ok'', Suc k)"
  let ?f3 = "\<lambda>k::nat. (Inl (Error (Some ''500 Internal Server Error'')) :: js_error + string, Suc k)"
  let ?s = "\<lparr>world = 0::nat, timeouts = []\<rparr>"
  have pw: "((snd \<circ> ?f3) ^^ n) 0 = n" for n
    by (induction n) simp_all
  have tm: "map (\<lambda>j. 2000 * 2 ^ j) [0..<2] = [2000, 4000::int]"
    by (simp add: numeral_2_eq_2)
  have c1: "withRetry ?f1 3 ?s = (Inl (Error (Some ''400 Bad Request'')), \<lparr>world = 1, timeouts = []\<rparr>)"
    using withRetry_policy [of 3 ?f1 ?s "Error (Some ''400 Bad Request'')" 1 "''ok''" 2 0 "[]",
            THEN conjunct1]
      policy_example_messages
    by simp
  have c2: "withRetry ?f2 3 ?s = (Inr ''ok'', \<lparr>world = 2, timeouts = [2000]\<rparr>)"
    using withRetry_policy [of 3 ?f2 ?s "Error (Some ''503 Service Unavailable'')" 1 "''ok''" 2 0 "[]",
            THEN conjunct2, THEN conjunct1]
      policy_example_messages
    by simp
  have c3: "withRetry ?f3 3 ?s
             = (Inl (Error (Some ''500 Internal Server Error'')), \<lparr>world = 3, timeouts = [2000, 4000]\<rparr>)"
    using withRetry_policy [of 3 ?f3 ?s "Error (Some ''500 Internal Server Error'')" 1 "''ok''" 2 0 "[]",
            THEN conjunct2, THEN conjunct2, THEN conjunct1]
      policy_example_messages
    by (simp add: tm pw del: funpow.simps)
  have c4: "snd (world (snd (withRetry (count_calls ?f3) 3 \<lparr>world = (0, 0), timeouts = []\<rparr>))) \<le> 3"
    using withRetry_policy [of 3 ?f3 ?s "Error (Some ''500 Internal Server Error'')" 1 "''ok''" 2 0 "[]",
            THEN conjunct2, THEN conjunct2, THEN conjunct2, THEN conjunct1]
    by simp
  let ?f4 = "\<lambda>k::nat. (if k = 0 then Inl (Error (Some ''503 Service Unavailable''))
                         else if k = 1 then Inl (Error (Some ''400 Bad Request''))
                         else Inr ''ok'', Suc k)"
  have o0: "attempt_outcome ?f4 0 0 = Inl (Error (Some ''503 Service Unavailable''))"
    by (simp add: attempt_outcome_def attempt_world_def)
  have o1: "attempt_outcome ?f4 (Suc 0) 0 = Inl (Error (Some ''400 Bad Request''))"
    by (simp add: attempt_outcome_def attempt_world_def)
  have w2: "attempt_world ?f4 (Suc (Suc 0)) 0 = 2"
    by (simp add: attempt_world_def)
  have c5: "withRetry ?f4 3 ?s = (Inl (Error (Some ''400 Bad Request'')), \<lparr>world = 2, timeouts = [2000]\<rparr>)"
    using withRetry_policy [where maxRetries = 3 and fn = ?f4 and s = ?s and k = "Suc 0",
            THEN conjunct2, THEN conjunct2, THEN conjunct2, THEN conjunct2, THEN conjunct1]
      policy_example_messages
    by (simp add: o0 o1 w2)
  show ?thesis
    using c1 c2 c3 c4 c5 by (intro conjI)
qed

section \<open>Parsing the response\<close>

lemma withRetry_default_first_success:
  "fn (world s) = (Inr v, w') \<Longrightarrow> withRetry_default fn s = (Inr v, s\<lparr>world := w'\<rparr>)"
  using withRetry_loop_success[of 0 3 fn s v w' 2000]
  by (simp add: withRetry_default_def withRetry_def)

text \<open>
  Claim C10. When JSON.parse accepts the literal \<open>[]\<close> as the empty array: if the text
  of the model's response is absent or empty, processTaxPDF returns the empty record
  list; processTaxPDF fails after the retry wrapper has returned a response only if the
  text is non-empty and JSON.parse rejects it, and then with the error of JSON.parse; and
  a rejected body is not retried: the failure leaves the state as the retry wrapper left
  it, so that a first call that returns a malformed body is the only call, with no delay,
  even when the parse error's message would count as retryable.
\<close>

theorem processTaxPDF_empty_text_and_parse_failure:
  assumes parse_empty: "JSON_parse ''[]'' = Inr []"
  shows
  "(withRetry_default (generateContent fileBase64 mimeType) s = (Inr resp, s1)
      \<and> (response_text resp = None \<or> response_text resp = Some [])
     \<longrightarrow> processTaxPDF START_YEAR END_YEAR generateContent JSON_parse fileBase64 mimeType s
           = (Inr [], s1))
   \<and> (withRetry_default (generateContent fileBase64 mimeType) s = (Inr resp, s1)
      \<and> processTaxPDF START_YEAR END_YEAR generateContent JSON_parse fileBase64 mimeType s
           = (Inl err, s')
     \<longrightarrow> (\<exists>t. response_text resp = Some t \<and> t \<noteq> [] \<and> JSON_parse t = Inl err) \<and> s' = s1)
   \<and> (withRetry_default (generateContent fileBase64 mimeType) s = (Inr resp, s1)
      \<and> response_text resp = Some t \<and> t \<noteq> [] \<and> JSON_parse t = Inl err
     \<longrightarrow> processTaxPDF START_YEAR END_YEAR generateContent JSON_parse fileBase64 mimeType s
           = (Inl err, s1))
   \<and> (generateContent fileBase64 mimeType (world s) = (Inr resp, w')
      \<and> response_text resp = Some t \<and> t \<noteq> [] \<and> JSON_parse t = Inl err
     \<longrightarrow> processTaxPDF START_YEAR END_YEAR generateContent JSON_parse fileBase64 mimeType s
           = (Inl err, s\<lparr>world := w'\<rparr>))"
proof -
  have empty: "processTaxPDF START_YEAR END_YEAR generateContent JSON_parse fileBase64 mimeType s
           = (Inr [], s1)"
    if "withRetry_default (generateContent fileBase64 mimeType) s = (Inr resp, s1)
      \<and> (response_text resp = None \<or> response_text resp = Some [])"
    using that parse_empty by (auto simp: processTaxPDF_def)
  have only: "(\<exists>t. response_text resp = Some t \<and> t \<noteq> [] \<and> JSON_parse t = Inl err) \<and> s' = s1"
    if a: "withRetry_default (generateContent fileBase64 mimeType) s = (Inr resp, s1)
      \<and> processTaxPDF START_YEAR END_YEAR generateContent JSON_parse fileBase64 mimeType s
           = (Inl err, s')"
  proof (cases "response_text resp")
    case None
    then show ?thesis using a parse_empty
      by (auto simp: processTaxPDF_def)
  next
    case (Some t)
    then show ?thesis using a parse_empty
      by (auto simp: processTaxPDF_def split: sum.splits if_splits)
  qed
  have fails: "processTaxPDF START_YEAR END_YEAR generateContent JSON_parse fileBase64 mimeType s
           = (Inl err, s1)"
    if "withRetry_default (generateContent fileBase64 mimeType) s = (Inr resp, s1)
      \<and> response_text resp = Some t \<and> t \<noteq> [] \<and> JSON_parse t = Inl err"
    using that by (simp add: processTaxPDF_def)
  have once: "processTaxPDF START_YEAR END_YEAR generateContent JSON_parse fileBase64 mimeType s
           = (Inl err, s\<lparr>world := w'\<rparr>)"
    if a: "generateContent fileBase64 mimeType (world s) = (Inr resp, w')
      \<and> response_text resp = Some t \<and> t \<noteq> [] \<and> JSON_parse t = Inl err"
  proof -
    have "withRetry_default (generateContent fileBase64 mimeType) s = (Inr resp, s\<lparr>world := w'\<rparr>)"
      using a withRetry_default_first_success[of "generateContent fileBase64 mimeType" s resp w'] by simp
    then show ?thesis using a by (simp add: processTaxPDF_def)
  qed
  show ?thesis
    using empty only fails once by blast
qed

lemma parse_failure_example_message:
  "String_includes ''Unexpected token < in JSON at position 0 (status 503)'' ''503''"
  by code_simp

theorem processTaxPDF_empty_text_and_parse_failure_witness:
  "processTaxPDF 2020 2024
     (\<lambda>fileBase64 mimeType k::nat. (Inr \<lparr>response_text = None\<rparr>, Suc k))
     (\<lambda>t. if t = ''[]'' then Inr []
          else Inl (Error (Some ''Unexpected token < in JSON at position 0 (status 503)'')))
     ''JVBERi0='' ''application/pdf'' \<lparr>world = 0, timeouts = []\<rparr>
    = (Inr ([] :: rat TaxRecord list), \<lparr>world = 1, timeouts = []\<rparr>)
   \<and> isRetryable (Error (Some ''Unexpected token < in JSON at position 0 (status 503)''))
   \<and> processTaxPDF 2020 2024
     (\<lambda>fileBase64 mimeType k::nat. (Inr \<lparr>response_text = Some ''<html>''\<rparr>, Suc k))
     (\<lambda>t. if t = ''[]'' then Inr []
          else Inl (Error (Some ''Unexpected token < in JSON at position 0 (status 503)'')))
     ''JVBERi0='' ''application/pdf'' \<lparr>world = 0, timeouts = []\<rparr>
    = (Inl (Error (Some ''Unexpected token < in JSON at position 0 (status 503)''))
         :: js_error + rat TaxRecord list,
       \<lparr>world = 1, timeouts = []\<rparr>)"
proof -
  let ?g1 = "\<lambda>(fileBase64::string) (mimeType::string) k::nat. (Inr \<lparr>response_text = None\<rparr> :: js_error + response, Suc k)"
  let ?g2 = "\<lambda>(fileBase64::string) (mimeType::string) k::nat. (Inr \<lparr>response_text = Some ''<html>''\<rparr> :: js_error + response, Suc k)"
  let ?e = "Error (Some ''Unexpected token < in JSON at position 0 (status 503)'')"
  let ?p = "\<lambda>t. if t = ''[]'' then Inr [] else Inl ?e :: js_error + rat raw_item list"
  let ?s = "\<lparr>world = 0::nat, timeouts = []\<rparr>"
  have p: "?p ''[]'' = Inr []" by simp
  have w1: "withRetry_default (?g1 ''JVBERi0='' ''application/pdf'') ?s
              = (Inr \<lparr>response_text = None\<rparr>, \<lparr>world = 1, timeouts = []\<rparr>)"
    by (simp add: withRetry_default_first_success)
  have c1: "processTaxPDF 2020 2024 ?g1 ?p ''JVBERi0='' ''application/pdf'' ?s
              = (Inr [], \<lparr>world = 1, timeouts = []\<rparr>)"
    using processTaxPDF_empty_text_and_parse_failure
            [of ?p ?g1 "''JVBERi0=''" "''application/pdf''" ?s "\<lparr>response_text = None\<rparr>"
                "\<lparr>world = 1, timeouts = []\<rparr>" 2020 2024 ?e ?s "''<html>''" 1,
             OF p, THEN conjunct1] w1
    by simp
  have c2: "isRetryable ?e"
    using parse_failure_example_message by (simp add: isRetryable_def)
  have c3: "processTaxPDF 2020 2024 ?g2 ?p ''JVBERi0='' ''application/pdf'' ?s = (Inl ?e, \<lparr>world = 1, timeouts = []\<rparr>)"
    using processTaxPDF_empty_text_and_parse_failure
            [of ?p ?g2 "''JVBERi0=''" "''application/pdf''" ?s "\<lparr>response_text = Some ''<html>''\<rparr>"
                "\<lparr>world = 1, timeouts = []\<rparr>" 2020 2024 ?e ?s "''<html>''" 1,
             OF p, THEN conjunct2, THEN conjunct2, THEN conjunct2]
    by simp
  show ?thesis using c1 c2 c3 by (intro conjI)
qed

section \<open>Uploading a batch\<close>

lemma upload_loop_all_succeed:
  "\<forall>out \<in> set (extractions S E gen parse i fileList s). \<exists>result. out = Inr result \<Longrightarrow>
   fst (upload_loop S E gen parse i fileList newRecords s)
     = Inr (newRecords @ concat (map (\<lambda>out. case out of Inr result \<Rightarrow> result | Inl e \<Rightarrow> [])
                                   (extractions S E gen parse i fileList s)))
   \<and> length (extractions S E gen parse i fileList s) = length fileList"
proof (induction fileList arbitrary: i newRecords s)
  case Nil
  then show ?case by simp
next
  case (Cons f rest)
  let ?s1 = "if i > 0 then sleep 1500 s else s"
  obtain out s2 where p: "processTaxPDF S E gen parse (base64 f) (file_type f) ?s1 = (out, s2)"
    by (cases "processTaxPDF S E gen parse (base64 f) (file_type f) ?s1")
  show ?case
  proof (cases out)
    case (Inl e)
    then show ?thesis using Cons.prems p by simp
  next
    case (Inr result)
    then have "\<forall>out \<in> set (extractions S E gen parse (i + 1) rest s2). \<exists>result. out = Inr result"
      using Cons.prems p by simp
    from Cons.IH[OF this, of "newRecords @ result"] show ?thesis
      using p Inr by (simp add: Let_def)
  qed
qed

lemma upload_loop_failure:
  "Inl e \<in> set (extractions S E gen parse i fileList s) \<Longrightarrow>
   fst (upload_loop S E gen parse i fileList newRecords s) = Inl (inner_catch e)"
proof (induction fileList arbitrary: i newRecords s)
  case Nil
  then show ?case by simp
next
  case (Cons f rest)
  let ?s1 = "if i > 0 then sleep 1500 s else s"
  obtain out s2 where p: "processTaxPDF S E gen parse (base64 f) (file_type f) ?s1 = (out, s2)"
    by (cases "processTaxPDF S E gen parse (base64 f) (file_type f) ?s1")
  show ?case
  proof (cases out)
    case (Inl e')
    then show ?thesis using Cons.prems p by (simp add: Let_def)
  next
    case (Inr result)
    then have "Inl e \<in> set (extractions S E gen parse (i + 1) rest s2)"
      using Cons.prems p by simp
    from Cons.IH[OF this, of "newRecords @ result"] show ?thesis
      using p Inr by (simp add: Let_def)
  qed
qed

lemma handleFileUpload_failure:
  assumes "Inl e \<in> set (extractions S E gen parse 0 fileList s)"
  shows "fst (handleFileUpload S E gen parse (Some fileList) (st, s))
           = st\<lparr>isLoading := False, error := Some (outer_catch (inner_catch e))\<rparr>"
proof -
  have ne: "fileList \<noteq> []" using assms by auto
  obtain r s' where u: "upload_loop S E gen parse 0 fileList [] s = (r, s')"
    by (cases "upload_loop S E gen parse 0 fileList [] s")
  have "r = Inl (inner_catch e)"
    using upload_loop_failure[OF assms, of "[]"] u by simp
  then show ?thesis using ne u by (simp add: handleFileUpload_def)
qed

lemma handleFileUpload_success:
  assumes "fileList \<noteq> []"
    and "\<forall>out \<in> set (extractions S E gen parse 0 fileList s). \<exists>result. out = Inr result"
  shows "fst (handleFileUpload S E gen parse (Some fileList) (st, s))
           = st\<lparr>isLoading := False, error := None,
                records := records st @ concat (map (\<lambda>out. case out of Inr result \<Rightarrow> result | Inl e \<Rightarrow> [])
                                                  (extractions S E gen parse 0 fileList s))\<rparr>"
proof -
  obtain r s' where u: "upload_loop S E gen parse 0 fileList [] s = (r, s')"
    by (cases "upload_loop S E gen parse 0 fileList [] s")
  have "r = Inr (concat (map (\<lambda>out. case out of Inr result \<Rightarrow> result | Inl e \<Rightarrow> [])
                                                  (extractions S E gen parse 0 fileList s)))"
    using upload_loop_all_succeed[OF assms(2), of "[]"] u by simp
  then show ?thesis using assms(1) u by (simp add: handleFileUpload_def)
qed

text \<open>
  Claim C5. A batch is all-or-nothing for the record list: if the extraction of any file
  of the batch fails, the record list after handleFileUpload is the list before it, so
  that neither the records of the failed file nor those already extracted from earlier
  files of the batch are committed; if the extraction of every file succeeds, every file
  has been extracted and the records of all of them are appended, in order, to the list.
  An absent or empty selection changes nothing.
\<close>

theorem batch_all_or_nothing:
  "((\<exists>e. Inl e \<in> set (extractions START_YEAR END_YEAR generateContent JSON_parse 0 fileList s))
      \<longrightarrow> records (fst (handleFileUpload START_YEAR END_YEAR generateContent JSON_parse
                          (Some fileList) (st, s))) = records st)
   \<and> (fileList \<noteq> []
        \<and> (\<forall>out \<in> set (extractions START_YEAR END_YEAR generateContent JSON_parse 0 fileList s).
              \<exists>result. out = Inr result)
      \<longrightarrow> length (extractions START_YEAR END_YEAR generateContent JSON_parse 0 fileList s)
            = length fileList
          \<and> records (fst (handleFileUpload START_YEAR END_YEAR generateContent JSON_parse
                          (Some fileList) (st, s)))
            = records st
              @ concat (map (\<lambda>out. case out of Inr result \<Rightarrow> result | Inl e \<Rightarrow> [])
                  (extractions START_YEAR END_YEAR generateContent JSON_parse 0 fileList s)))
   \<and> handleFileUpload START_YEAR END_YEAR generateContent JSON_parse None (st, s) = (st, s)
   \<and> handleFileUpload START_YEAR END_YEAR generateContent JSON_parse (Some []) (st, s) = (st, s)"
proof -
  have fail: "records (fst (handleFileUpload START_YEAR END_YEAR generateContent JSON_parse
                          (Some fileList) (st, s))) = records st"
    if "\<exists>e. Inl e \<in> set (extractions START_YEAR END_YEAR generateContent JSON_parse 0 fileList s)"
  proof -
    from that obtain e where
      "Inl e \<in> set (extractions START_YEAR END_YEAR generateContent JSON_parse 0 fileList s)" ..
    then show ?thesis by (simp add: handleFileUpload_failure)
  qed
  have ok: "length (extractions START_YEAR END_YEAR generateContent JSON_parse 0 fileList s)
            = length fileList
          \<and> records (fst (handleFileUpload START_YEAR END_YEAR generateContent JSON_parse
                          (Some fileList) (st, s)))
            = records st
              @ concat (map (\<lambda>out. case out of Inr result \<Rightarrow> result | Inl e \<Rightarrow> [])
                  (extractions START_YEAR END_YEAR generateContent JSON_parse 0 fileList s))"
    if a: "fileList \<noteq> []
        \<and> (\<forall>out \<in> set (extractions START_YEAR END_YEAR generateContent JSON_parse 0 fileList s).
              \<exists>result. out = Inr result)"
    using a upload_loop_all_succeed[of START_YEAR END_YEAR generateContent JSON_parse 0 fileList s "[]"]
    by (simp add: handleFileUpload_success)
  have none: "handleFileUpload START_YEAR END_YEAR generateContent JSON_parse None (st, s) = (st, s)"
    "handleFileUpload START_YEAR END_YEAR generateContent JSON_parse (Some []) (st, s) = (st, s)"
    by (simp_all add: handleFileUpload_def)
  show ?thesis using fail ok none by blast
qed

lemma three_files_extractions:
  "extractions 2020 2021 echo_service one_item_parser 0 [pdf ''a'', pdf ''bad'', pdf ''c''] start
     = [Inr [\<lparr>nama = ''a'', nop = ''a'', arrears = [(2020, None), (2021, Some 500)],
              total = 500, notes = []\<rparr>],
        Inl (Error (Some ''400 Bad Request''))]"
  by code_simp

lemma two_files_extractions:
  "extractions 2020 2021 echo_service one_item_parser 0 [pdf ''a'', pdf ''c''] start
     = [Inr [\<lparr>nama = ''a'', nop = ''a'', arrears = [(2020, None), (2021, Some 500)],
              total = 500, notes = []\<rparr>],
        Inr [\<lparr>nama = ''c'', nop = ''c'', arrears = [(2020, None), (2021, Some 500)],
              total = 500, notes = []\<rparr>]]"
  by code_simp

theorem batch_all_or_nothing_witness:
  "records (fst (handleFileUpload 2020 2021 echo_service one_item_parser
                   (Some [pdf ''a'', pdf ''bad'', pdf ''c'']) (idle, start)))
     = [previous_record]
   \<and> records (fst (handleFileUpload 2020 2021 echo_service one_item_parser
                   (Some [pdf ''a'', pdf ''c'']) (idle, start)))
     = [previous_record,
        \<lparr>nama = ''a'', nop = ''a'', arrears = [(2020, None), (2021, Some 500)],
              total = 500, notes = []\<rparr>,
        \<lparr>nama = ''c'', nop = ''c'', arrears = [(2020, None), (2021, Some 500)],
              total = 500, notes = []\<rparr>]"
proof -
  have p1: "\<exists>e. Inl e \<in> set (extractions 2020 2021 echo_service one_item_parser 0
                               [pdf ''a'', pdf ''bad'', pdf ''c''] start)"
    by (simp only: three_files_extractions) simp
  have c1: "records (fst (handleFileUpload 2020 2021 echo_service one_item_parser
                   (Some [pdf ''a'', pdf ''bad'', pdf ''c'']) (idle, start)))
     = [previous_record]"
    using batch_all_or_nothing
            [of 2020 2021 echo_service one_item_parser "[pdf ''a'', pdf ''bad'', pdf ''c'']" start idle,
             THEN conjunct1, THEN mp, OF p1]
    by (simp add: idle_def)
  have p2: "[pdf ''a'', pdf ''c''] \<noteq> []
        \<and> (\<forall>out \<in> set (extractions 2020 2021 echo_service one_item_parser 0 [pdf ''a'', pdf ''c''] start).
              \<exists>result. out = Inr result)"
    by (simp only: two_files_extractions) simp
  have c2: "records (fst (handleFileUpload 2020 2021 echo_service one_item_parser
                   (Some [pdf ''a'', pdf ''c'']) (idle, start)))
     = [previous_record,
        \<lparr>nama = ''a'', nop = ''a'', arrears = [(2020, None), (2021, Some 500)],
              total = 500, notes = []\<rparr>,
        \<lparr>nama = ''c'', nop = ''c'', arrears = [(2020, None), (2021, Some 500)],
              total = 500, notes = []\<rparr>]"
    using batch_all_or_nothing
            [of 2020 2021 echo_service one_item_parser "[pdf ''a'', pdf ''c'']" start idle,
             THEN conjunct2, THEN conjunct1, THEN mp, OF p2, THEN conjunct2]
    by (simp only: two_files_extractions) (simp add: idle_def)
  show ?thesis using c1 c2 by (intro conjI)
qed

lemma marker_facts:
  "\<not> String_includes ''QUOTA_EXCEEDED'' ''429''"
  "\<not> String_includes ''Cannot read properties of undefined (reading 'includes')'' ''429''"
  by code_simp+

lemma messages_differ: "QUOTA_MESSAGE \<noteq> FAILURE_MESSAGE"
  by (simp add: QUOTA_MESSAGE_def FAILURE_MESSAGE_def)

lemma outer_inner_catch:
  "outer_catch (inner_catch e) =
     (case message e of
        None \<Rightarrow> FAILURE_MESSAGE
      | Some m \<Rightarrow> if String_includes m ''429'' \<or> m = ''QUOTA_EXCEEDED'' then QUOTA_MESSAGE
                  else FAILURE_MESSAGE)"
proof (cases "message e")
  case None
  then show ?thesis
    using marker_facts(2)
    by (simp add: outer_catch_def inner_catch_def TypeError_includes_of_undefined_def)
next
  case (Some m)
  then show ?thesis
    using marker_facts(1)
    by (auto simp: outer_catch_def inner_catch_def)
qed

lemma marker_extractions:
  "extractions 2020 2021 (failing_service ''QUOTA_EXCEEDED'') one_item_parser 0 [pdf ''a''] start
     = [Inl (Error (Some ''QUOTA_EXCEEDED''))]"
  by code_simp

lemma marker_run:
  "processTaxPDF 2020 2021 (failing_service ''QUOTA_EXCEEDED'') one_item_parser
     ''a'' ''application/pdf'' start
     = (Inl (Error (Some ''QUOTA_EXCEEDED'')), \<lparr>world = 1, timeouts = []\<rparr>)"
  by code_simp

text \<open>
  Claim C9, as stated, fails: a batch whose extraction fails with an error whose message
  is exactly \<open>QUOTA_EXCEEDED\<close> (which does not contain 429) is shown the quota message,
  not the generic one.
\<close>

theorem generic_failure_counterexample:
  "processTaxPDF 2020 2021 (failing_service ''QUOTA_EXCEEDED'') one_item_parser
     ''a'' ''application/pdf'' start
     = (Inl (Error (Some ''QUOTA_EXCEEDED'')), \<lparr>world = 1, timeouts = []\<rparr>)
   \<and> extractions 2020 2021 (failing_service ''QUOTA_EXCEEDED'') one_item_parser 0 [pdf ''a''] start
     = [Inl (Error (Some ''QUOTA_EXCEEDED''))]
   \<and> \<not> String_includes ''QUOTA_EXCEEDED'' ''429''
   \<and> error (fst (handleFileUpload 2020 2021 (failing_service ''QUOTA_EXCEEDED'') one_item_parser
                    (Some [pdf ''a'']) (idle, start))) \<noteq> Some FAILURE_MESSAGE
   \<and> error (fst (handleFileUpload 2020 2021 (failing_service ''QUOTA_EXCEEDED'') one_item_parser
                    (Some [pdf ''a'']) (idle, start))) = Some QUOTA_MESSAGE"
proof -
  have "Inl (Error (Some ''QUOTA_EXCEEDED''))
          \<in> set (extractions 2020 2021 (failing_service ''QUOTA_EXCEEDED'') one_item_parser 0
                   [pdf ''a''] start)"
    by (simp only: marker_extractions) simp
  from handleFileUpload_failure[OF this, of idle]
  have "error (fst (handleFileUpload 2020 2021 (failing_service ''QUOTA_EXCEEDED'') one_item_parser
                    (Some [pdf ''a'']) (idle, start))) = Some QUOTA_MESSAGE"
    by (simp add: outer_inner_catch)
  then show ?thesis
    using marker_run marker_extractions marker_facts(1) messages_differ by simp
qed

text \<open>
  Claim C9, amended. A batch failure whose underlying error message contains 429, or is
  exactly the marker \<open>QUOTA_EXCEEDED\<close>, is surfaced as the quota-exceeded message; every
  other batch failure (an error without a message included) is surfaced as the generic
  processing-failure message; the two messages differ, exactly one of them is shown, and
  in both cases the record list is unchanged.
\<close>

theorem error_classification:
  assumes "Inl e \<in> set (extractions START_YEAR END_YEAR generateContent JSON_parse 0 fileList s)"
  shows "error (fst (handleFileUpload START_YEAR END_YEAR generateContent JSON_parse
                       (Some fileList) (st, s)))
           = Some (case message e of
                     None \<Rightarrow> FAILURE_MESSAGE
                   | Some m \<Rightarrow> if String_includes m ''429'' \<or> m = ''QUOTA_EXCEEDED''
                               then QUOTA_MESSAGE else FAILURE_MESSAGE)
         \<and> QUOTA_MESSAGE \<noteq> FAILURE_MESSAGE
         \<and> records (fst (handleFileUpload START_YEAR END_YEAR generateContent JSON_parse
                       (Some fileList) (st, s))) = records st"
  using handleFileUpload_failure[OF assms, of st] messages_differ
  by (simp add: outer_inner_catch)

lemma classification_examples:
  "extractions 2020 2021 (failing_service ''got status: 429 Too Many Requests'') one_item_parser 0
       [pdf ''a''] start
     = [Inl (Error (Some ''got status: 429 Too Many Requests''))]"
  "extractions 2020 2021 echo_service one_item_parser 0 [pdf ''a'', pdf ''<html>''] start
     = [Inr [\<lparr>nama = ''a'', nop = ''a'', arrears = [(2020, None), (2021, Some 500)],
              total = 500, notes = []\<rparr>],
        Inl (Error (Some ''Unexpected token < in JSON at position 0''))]"
  "String_includes ''got status: 429 Too Many Requests'' ''429''"
  "\<not> String_includes ''Unexpected token < in JSON at position 0'' ''429''"
  by code_simp+

theorem error_classification_witness:
  "error (fst (handleFileUpload 2020 2021 (failing_service ''got status: 429 Too Many Requests'')
                 one_item_parser (Some [pdf ''a'']) (idle, start))) = Some QUOTA_MESSAGE
   \<and> records (fst (handleFileUpload 2020 2021 (failing_service ''got status: 429 Too Many Requests'')
                 one_item_parser (Some [pdf ''a'']) (idle, start))) = [previous_record]
   \<and> error (fst (handleFileUpload 2020 2021 echo_service one_item_parser
                 (Some [pdf ''a'', pdf ''<html>'']) (idle, start))) = Some FAILURE_MESSAGE
   \<and> records (fst (handleFileUpload 2020 2021 echo_service one_item_parser
                 (Some [pdf ''a'', pdf ''<html>'']) (idle, start))) = [previous_record]"
proof -
  have p1: "Inl (Error (Some ''got status: 429 Too Many Requests''))
        \<in> set (extractions 2020 2021 (failing_service ''got status: 429 Too Many Requests'')
                 one_item_parser 0 [pdf ''a''] start)"
    by (simp only: classification_examples(1)) simp
  have p2: "Inl (Error (Some ''Unexpected token < in JSON at position 0''))
        \<in> set (extractions 2020 2021 echo_service one_item_parser 0 [pdf ''a'', pdf ''<html>''] start)"
    by (simp only: classification_examples(2)) simp
  show ?thesis
    using error_classification[OF p1, of idle] error_classification[OF p2, of idle]
      classification_examples(3,4)
    by (simp add: idle_def)
qed

section \<open>The validation summary\<close>

lemma indexOf_absent: "x \<notin> set xs \<Longrightarrow> indexOf xs x = - 1"
  by (induction xs) auto

lemma indexOf_present: "x \<in> set xs \<Longrightarrow> 0 \<le> indexOf xs x \<and> indexOf xs x < int (length xs)"
  by (induction xs) (auto simp: Let_def)

lemma indexOf_append_present: "x \<in> set xs \<Longrightarrow> indexOf (xs @ ys) x = indexOf xs x"
proof (induction xs)
  case Nil
  then show ?case by simp
next
  case (Cons y xs)
  show ?case
  proof (cases "y = x")
    case True
    then show ?thesis by simp
  next
    case False
    then have "x \<in> set xs" using Cons.prems by simp
    then show ?thesis using False Cons.IH by (simp add: Let_def)
  qed
qed

lemma indexOf_snoc_new: "x \<notin> set xs \<Longrightarrow> indexOf (xs @ [x]) x = int (length xs)"
proof (induction xs)
  case Nil
  then show ?case by simp
next
  case (Cons y xs)
  then have "indexOf (xs @ [x]) x = int (length xs)" by simp
  then show ?case using Cons.prems by (auto simp: Let_def)
qed

lemma indexes_snoc: "[0..int (length (xs @ [x])) - 1] = [0..int (length xs) - 1] @ [int (length xs)]"
  using upto_rec2[of 0 "int (length xs)"] by simp

lemma length_indexes: "length [0..int n - 1] = n"
  by simp

lemma flagged_snoc:
  "filter_with_index (\<lambda>n index. indexOf (xs @ [x]) n \<noteq> index) (xs @ [x])
     = filter_with_index (\<lambda>n index. indexOf xs n \<noteq> index) xs @ (if x \<in> set xs then [x] else [])"
proof -
  let ?ix = "[0..int (length xs) - 1]"
  have z: "zip (xs @ [x]) [0..int (length (xs @ [x])) - 1] = zip xs ?ix @ [(x, int (length xs))]"
    by (simp only: indexes_snoc) (simp add: length_indexes)
  have same: "filter (\<lambda>(n, index). indexOf (xs @ [x]) n \<noteq> index) (zip xs ?ix)
                = filter (\<lambda>(n, index). indexOf xs n \<noteq> index) (zip xs ?ix)"
  proof (rule filter_cong[OF refl])
    fix p assume "p \<in> set (zip xs ?ix)"
    then have "fst p \<in> set xs" by (metis in_set_zipE prod.collapse)
    then show "(case p of (n, index) \<Rightarrow> indexOf (xs @ [x]) n \<noteq> index)
                 = (case p of (n, index) \<Rightarrow> indexOf xs n \<noteq> index)"
      by (cases p) (simp add: indexOf_append_present)
  qed
  have last: "indexOf (xs @ [x]) x \<noteq> int (length xs) \<longleftrightarrow> x \<in> set xs"
    using indexOf_snoc_new[of x xs] indexOf_present[of x xs] indexOf_append_present[of x xs "[x]"]
    by auto
  show ?thesis
    unfolding filter_with_index_def z using same last by simp
qed

lemma count_list_pos_iff: "0 < count_list xs x \<longleftrightarrow> x \<in> set xs"
  by (induction xs) auto

lemma count_flagged:
  "count_list (filter_with_index (\<lambda>n index. indexOf xs n \<noteq> index) xs) n = count_list xs n - 1"
proof (induction xs rule: rev_induct)
  case Nil
  then show ?case by (simp add: filter_with_index_def)
next
  case (snoc x xs)
  have pos: "x \<in> set xs \<Longrightarrow> 0 < count_list xs x"
    by (simp add: count_list_pos_iff)
  have zero: "x \<notin> set xs \<Longrightarrow> count_list xs x = 0"
    using count_list_pos_iff[of xs x] by simp
  show ?case
    using snoc.IH pos zero by (auto simp: flagged_snoc)
qed

lemma Array_from_Set_fold:
  "distinct seen \<Longrightarrow>
   distinct (foldl (\<lambda>seen x. if x \<in> set seen then seen else seen @ [x]) seen xs)
   \<and> set (foldl (\<lambda>seen x. if x \<in> set seen then seen else seen @ [x]) seen xs) = set seen \<union> set xs"
  by (induction xs arbitrary: seen) auto

lemma Array_from_Set_props: "distinct (Array_from_Set xs)" "set (Array_from_Set xs) = set xs"
  using Array_from_Set_fold[of "[]" xs] by (simp_all add: Array_from_Set_def)

lemma duplicates_generateSummary:
  "duplicates (generateSummary epsilon recs)
     = Array_from_Set (filter_with_index (\<lambda>n index. indexOf (map nop recs) n \<noteq> index) (map nop recs))"
  by (simp add: generateSummary_def Let_def)

lemma duplicates_example:
  "Array_from_Set (filter_with_index (\<lambda>n index. indexOf [''A'', ''B'', ''A'', ''C'', ''A''] n \<noteq> index)
      [''A'', ''B'', ''A'', ''C'', ''A'']) = [''A'']"
  by code_simp

text \<open>
  Claim C6. The duplicates reported by generateSummary are exactly the object identifiers
  that occur more than once in the record list, each reported once however often it
  repeats (an identifier that occurs once is not reported); for the identifiers
  A, B, A, C, A the reported duplicates are A alone.
\<close>

theorem duplicate_detection:
  "distinct (duplicates (generateSummary epsilon recs))
   \<and> set (duplicates (generateSummary epsilon recs)) = {n. 1 < count_list (map nop recs) n}
   \<and> (map nop recs = [''A'', ''B'', ''A'', ''C'', ''A'']
        \<longrightarrow> duplicates (generateSummary epsilon recs) = [''A''])"
proof -
  let ?nops = "map nop recs"
  let ?flagged = "filter_with_index (\<lambda>n index. indexOf ?nops n \<noteq> index) ?nops"
  have "set ?flagged = {n. 0 < count_list ?flagged n}"
    by (simp only: count_list_pos_iff) simp
  also have "\<dots> = {n. 1 < count_list ?nops n}"
    by (simp only: count_flagged) auto
  finally have s: "set (duplicates (generateSummary epsilon recs)) = {n. 1 < count_list ?nops n}"
    by (simp only: duplicates_generateSummary Array_from_Set_props)
  have d: "distinct (duplicates (generateSummary epsilon recs))"
    by (simp only: duplicates_generateSummary Array_from_Set_props)
  have e: "duplicates (generateSummary epsilon recs) = [''A'']" if "?nops = [''A'', ''B'', ''A'', ''C'', ''A'']"
    by (simp only: duplicates_generateSummary that duplicates_example)
  show ?thesis using s d e by blast
qed

theorem duplicate_detection_witness:
  "duplicates (generateSummary double_0_01
     (map (\<lambda>n. \<lparr>nama = ''Budi'', nop = n, arrears = [], total = 0, notes = []\<rparr>)
        [''A'', ''B'', ''A'', ''C'', ''A''])) = [''A'']"
  using duplicate_detection
    [of double_0_01 "map (\<lambda>n. \<lparr>nama = ''Budi'', nop = n, arrears = [], total = 0, notes = []\<rparr>)
        [''A'', ''B'', ''A'', ''C'', ''A'']", THEN conjunct2, THEN conjunct2]
  by simp






section \<open>The CSV export\<close>

lemma digits_examples:
  "digits 500 = ''500''" "digits 2020 = ''2020''" "digits 2021 = ''2021''"
  by code_simp+

lemma String_int_examples:
  "String_int other 2020 = ''2020''" "String_int other 2021 = ''2021''"
  by (simp_all add: String_int_def digits_examples)

lemma csv_cell_cases:
  "obj_get (arrears r) y = Some None \<Longrightarrow> csv_cell toString r y = []"
  "obj_get (arrears r) y = Some (Some v) \<Longrightarrow> csv_cell toString r y = toString v"
  by (simp_all add: csv_cell_def)

lemma YEARS_example: "YEARS_of 2020 2021 = [2020, 2021]"
  by code_simp

text \<open>
  Claim C8. When there are records to export, the output of exportToCSV is the
  byte-order mark followed by the lines joined with a line feed, the first line being
  the header \<open>Nama,NOP,<one column per configured year>,Total\<close> (for the range
  [2020, 2021]: \<open>Nama,NOP,2020,2021,Total\<close>) and each further line the row of one
  record; a row is the comma-joined list of the name wrapped in double quotes, the
  object identifier prefixed with an apostrophe, one cell per configured year and the
  stored total; the cell of a year is empty when the year's entry is the null marker and
  the amount as the engine prints it otherwise (for a normalized record and a configured
  year: empty when the source had no pair for the year, the extracted amount otherwise);
  and the record Budi, 123, total 500, 2020 null, 2021 500, with the range [2020, 2021],
  gives the row \<open>"Budi",'123,,500,500\<close>, 500 being a number that prints as \<open>500\<close>.
\<close>

theorem csv_serialization:
  \<open>(recs \<noteq> [] \<longrightarrow>
      exportToCSV toString other YEARS recs
        = Some (BOM @ Array_join [CHR 0x0A]
                  (Array_join '','' ([''Nama'', ''NOP''] @ map (String_int other) YEARS @ [''Total''])
                   # map (csv_row toString YEARS) recs)))
   \<and> Array_join '','' ([''Nama'', ''NOP''] @ map (String_int other) (YEARS_of 2020 2021) @ [''Total''])
        = ''Nama,NOP,2020,2021,Total''
   \<and> csv_row toString YEARS r
        = Array_join '','' ([[CHR 0x22] @ nama r @ [CHR 0x22], [CHR 0x27] @ nop r]
                            @ map (csv_cell toString r) YEARS
                            @ [toString (total r)])
   \<and> (obj_get (arrears r) y = Some None \<longrightarrow> csv_cell toString r y = [])
   \<and> (obj_get (arrears r) y = Some (Some v) \<longrightarrow> csv_cell toString r y = toString v)
   \<and> (y \<in> set (YEARS_of START_YEAR END_YEAR) \<longrightarrow>
        csv_cell toString (normalize_item START_YEAR END_YEAR item) y
          = (if filter (\<lambda>a. year a = y) (item_arrears item) = [] then []
             else toString (kurangBayar (last (filter (\<lambda>a. year a = y) (item_arrears item))))))
   \<and> (toString a = ''500'' \<longrightarrow>
        csv_row toString (YEARS_of 2020 2021)
          \<lparr>nama = ''Budi'', nop = ''123'', arrears = [(2020, None), (2021, Some a)],
           total = a, notes = []\<rparr>
          = ''"Budi",'123,,500,500'')\<close>
proof -
  have whole: "exportToCSV toString other YEARS recs
        = Some (BOM @ Array_join [CHR 0x0A]
                  (Array_join '','' ([''Nama'', ''NOP''] @ map (String_int other) YEARS @ [''Total''])
                   # map (csv_row toString YEARS) recs))" if "recs \<noteq> []"
    using that by (simp add: exportToCSV_def csv_headers_def Let_def)
  have header: "Array_join '','' ([''Nama'', ''NOP''] @ map (String_int other) (YEARS_of 2020 2021) @ [''Total''])
        = ''Nama,NOP,2020,2021,Total''"
    by (simp add: YEARS_example String_int_examples)
  have row: "csv_row toString YEARS r
        = Array_join '','' ([[CHR 0x22] @ nama r @ [CHR 0x22], [CHR 0x27] @ nop r]
                            @ map (csv_cell toString r) YEARS
                            @ [toString (total r)])"
    by (simp add: csv_row_def)
  have norm: "csv_cell toString (normalize_item START_YEAR END_YEAR item) y
          = (if filter (\<lambda>a. year a = y) (item_arrears item) = [] then []
             else toString (kurangBayar (last (filter (\<lambda>a. year a = y) (item_arrears item)))))"
    if "y \<in> set (YEARS_of START_YEAR END_YEAR)"
  proof -
    have "y \<in> {START_YEAR..END_YEAR}" using that by (simp add: YEARS_of_def)
    from normalization_get[OF this, of item] show ?thesis
      by (simp add: csv_cell_def)
  qed
  have budi: \<open>csv_row toString (YEARS_of 2020 2021)
          \<lparr>nama = ''Budi'', nop = ''123'', arrears = [(2020, None), (2021, Some a)],
           total = a, notes = []\<rparr>
          = ''"Budi",'123,,500,500''\<close> if "toString a = ''500''"
    using that by (simp add: csv_row_def YEARS_example csv_cell_def obj_get_def)
  show ?thesis
    using whole header row csv_cell_cases(1)[where r=r and y=y and toString=toString]
      csv_cell_cases(2)[where r=r and y=y and v=v and toString=toString] norm budi
    by blast
qed

lemma print_integral_500: "print_integral 500 = ''500''"
  by (simp add: print_integral_def String_int_def digits_examples)

lemma csv_example_file:
  \<open>BOM @ Array_join [CHR 0x0A] [''Nama,NOP,2020,2021,Total'', ''"Budi",'123,,500,500'']
   = [CHR 0xEF, CHR 0xBB, CHR 0xBF] @ ''Nama,NOP,2020,2021,Total'' @ [CHR 0x0A]
       @ ''"Budi",'123,,500,500''\<close>
  by (simp add: BOM_def)

theorem csv_serialization_witness:
  \<open>exportToCSV print_integral (\<lambda>n. ''?'') (YEARS_of 2020 2021)
     [\<lparr>nama = ''Budi'', nop = ''123'', arrears = [(2020, None), (2021, Some 500)],
       total = 500, notes = []\<rparr>]
    = Some ([CHR 0xEF, CHR 0xBB, CHR 0xBF] @ ''Nama,NOP,2020,2021,Total'' @ [CHR 0x0A]
             @ ''"Budi",'123,,500,500'')
   \<and> csv_cell print_integral
        \<lparr>nama = ''Budi'', nop = ''123'', arrears = [(2020, None), (2021, Some 500)],
         total = 500, notes = []\<rparr> 2020 = []
   \<and> csv_cell print_integral
        \<lparr>nama = ''Budi'', nop = ''123'', arrears = [(2020, None), (2021, Some 500)],
         total = 500, notes = []\<rparr> 2021 = ''500''
   \<and> csv_cell print_integral
        (normalize_item 2020 2021
           \<lparr>item_nama = ''Budi'', item_nop = ''123'',
            item_arrears = [\<lparr>year = 2021, kurangBayar = 500\<rparr>]\<rparr>) 2021 = ''500''\<close>
proof -
  let ?o = "\<lambda>n::int. ''?''"
  let ?r = "\<lparr>nama = ''Budi'', nop = ''123'', arrears = [(2020, None), (2021, Some (500::rat))],
       total = 500::rat, notes = []\<rparr>"
  let ?item = "\<lparr>item_nama = ''Budi'', item_nop = ''123'',
            item_arrears = [\<lparr>year = 2021, kurangBayar = 500::rat\<rparr>]\<rparr>"
  note T = csv_serialization
    [where toString = print_integral and other = ?o and YEARS = "YEARS_of 2020 2021"
       and recs = "[?r]" and r = ?r and START_YEAR = 2020 and END_YEAR = 2021 and item = ?item
       and a = 500 and v = 500]
  have rowb: \<open>csv_row print_integral (YEARS_of 2020 2021) ?r = ''"Budi",'123,,500,500''\<close>
    using T[where y = 2021, THEN conjunct2, THEN conjunct2, THEN conjunct2, THEN conjunct2,
            THEN conjunct2, THEN conjunct2] print_integral_500
    by simp
  have head: "Array_join '','' ([''Nama'', ''NOP''] @ map (String_int ?o) (YEARS_of 2020 2021) @ [''Total''])
        = ''Nama,NOP,2020,2021,Total''"
    by (rule T[where y = 2021, THEN conjunct2, THEN conjunct1])
  have c1: \<open>exportToCSV print_integral ?o (YEARS_of 2020 2021) [?r]
    = Some ([CHR 0xEF, CHR 0xBB, CHR 0xBF] @ ''Nama,NOP,2020,2021,Total'' @ [CHR 0x0A]
             @ ''"Budi",'123,,500,500'')\<close>
    using T[where y = 2021, THEN conjunct1]
    by (simp only: list.map head rowb csv_example_file) simp
  have c2: "csv_cell print_integral ?r 2020 = []"
    using T[where y = 2020, THEN conjunct2, THEN conjunct2, THEN conjunct2, THEN conjunct1]
    by (simp add: obj_get_def)
  have c3: "csv_cell print_integral ?r 2021 = ''500''"
    using T[where y = 2021, THEN conjunct2, THEN conjunct2, THEN conjunct2, THEN conjunct2,
            THEN conjunct1] print_integral_500
    by (simp add: obj_get_def)
  have c4: "csv_cell print_integral (normalize_item 2020 2021 ?item) 2021 = ''500''"
    using T[where y = 2021, THEN conjunct2, THEN conjunct2, THEN conjunct2, THEN conjunct2,
            THEN conjunct2, THEN conjunct1] print_integral_500
    by (simp add: YEARS_example)
  show ?thesis using c1 c2 c3 c4 by (intro conjI)
qed

end
